theory Spec2Isabelle
  imports Complex_Main "HOL-Library.Word" "HOL-Library.Multiset"
begin

section \<open>Strings\<close>

text \<open>
  A JavaScript string is a sequence of UTF-16 code units: \<open>length\<close> counts code units and
  \<open>slice\<close> cuts between them.
\<close>

type_synonym jsstring = "16 word list"

text \<open>An ASCII literal as a JavaScript string.\<close>

definition str :: "string \<Rightarrow> jsstring" where
  "str s = map (\<lambda>c. of_nat (of_char c)) s"

text \<open>
  The code units that \<open>String.prototype.trim\<close> strips: ECMAScript's WhiteSpace and
  LineTerminator code points, all of them in the basic plane.
\<close>

definition is_ws :: "16 word \<Rightarrow> bool" where
  "is_ws c \<longleftrightarrow>
     c \<in> {0x0009, 0x000A, 0x000B, 0x000C, 0x000D, 0x0020, 0x00A0, 0x1680,
          0x2028, 0x2029, 0x202F, 0x205F, 0x3000, 0xFEFF}
     \<or> (0x2000 \<le> c \<and> c \<le> 0x200A)"

definition trim :: "jsstring \<Rightarrow> jsstring" where
  "trim s = rev (dropWhile is_ws (rev (dropWhile is_ws s)))"

text \<open>A string that \<open>trim\<close> empties: empty or whitespace only.\<close>

definition blank :: "jsstring \<Rightarrow> bool" where
  "blank s \<longleftrightarrow> list_all is_ws s"

text \<open>
  \<open>slice(start, end)\<close> of strings and arrays, for integer arguments: a negative
  argument counts from the end, both are clamped to the length, and an empty range gives
  the empty sequence.
\<close>

definition slice_js :: "'a list \<Rightarrow> int \<Rightarrow> int \<Rightarrow> 'a list" where
  "slice_js xs start end =
     (let len = int (length xs);
          from = (if start < 0 then max (len + start) 0 else min start len);
          to = (if end < 0 then max (len + end) 0 else min end len)
      in take (nat (to - from)) (drop (nat from) xs))"

section \<open>The chunker (scripts/ingest.js, chunkText)\<close>

text \<open>
  The \<open>while\<close> loop of \<open>chunkText\<close>, with its two variables \<open>start\<close> and
  \<open>chunks\<close> as arguments. The loop may run forever, so the result is an option:
  \<open>None\<close> is a call that never returns.
\<close>

partial_function (option) chunkText_loop ::
  "jsstring \<Rightarrow> int \<Rightarrow> int \<Rightarrow> int \<Rightarrow> jsstring list \<Rightarrow> jsstring list option" where
  "chunkText_loop text chunkSize overlap start chunks =
     (if start < int (length text) then
        (let end = min (int (length text)) (start + chunkSize);
             chunk = slice_js text start end;
             chunks' = (if length (trim chunk) > 0 then chunks @ [trim chunk] else chunks);
             start' = end - overlap;
             start'' = (if start' < 0 then 0 else start')
         in if start'' \<ge> int (length text) then Some chunks'
            else chunkText_loop text chunkSize overlap start'' chunks')
      else Some chunks)"

declare chunkText_loop.simps [code]

definition chunkText :: "jsstring \<Rightarrow> int \<Rightarrow> int \<Rightarrow> jsstring list option" where
  "chunkText text chunkSize overlap = chunkText_loop text chunkSize overlap 0 []"

text \<open>
  The windows of a text cut without overlap: window \<open>i\<close> is the slice from
  \<open>i * chunkSize\<close> to \<open>min len ((i + 1) * chunkSize)\<close>, and there are
  \<open>\<lceil>len / chunkSize\<rceil>\<close> of them.
\<close>

definition window :: "jsstring \<Rightarrow> int \<Rightarrow> nat \<Rightarrow> jsstring" where
  "window text chunkSize i =
     slice_js text (int i * chunkSize) (min (int (length text)) (int i * chunkSize + chunkSize))"

definition window_count :: "jsstring \<Rightarrow> int \<Rightarrow> nat" where
  "window_count text chunkSize = nat \<lceil>real (length text) / real_of_int chunkSize\<rceil>"

definition windows :: "jsstring \<Rightarrow> int \<Rightarrow> jsstring list" where
  "windows text chunkSize = map (window text chunkSize) [0..<window_count text chunkSize]"

section \<open>Numbers\<close>

text \<open>
  A JavaScript number is an IEEE 754 binary64 value: a finite double, one of the two
  infinities or \<open>NaN\<close>. A finite double is given by its real value, with the negative
  zero apart: \<open>Num 0\<close> is \<open>+0\<close> and \<open>NegZero\<close> is \<open>-0\<close>.
\<close>

datatype number = Num real | NegZero | PosInf | NegInf | NaN

text \<open>The power \<open>2\<^sup>e\<close> for an integer exponent.\<close>

definition pow2 :: "int \<Rightarrow> real" where
  "pow2 e = (if 0 \<le> e then 2 ^ nat e else 1 / 2 ^ nat (- e))"

text \<open>The integer nearest to \<open>t\<close>; of two equally near ones the even one.\<close>

definition round_even :: "real \<Rightarrow> int" where
  "round_even t =
     (let f = \<lfloor>t\<rfloor>
      in if t - of_int f < 1 / 2 then f
         else if 1 / 2 < t - of_int f then f + 1
         else if even f then f else f + 1)"

text \<open>
  The binary exponent at which a real is rounded: \<open>\<lfloor>log\<^sub>2 \<bar>x\<bar>\<rfloor>\<close>, and \<open>-1022\<close>, the
  exponent of the subnormal doubles, below that.
\<close>

definition exponent :: "real \<Rightarrow> int" where
  "exponent x = max \<lfloor>log 2 \<bar>x\<bar>\<rfloor> (- 1022)"

text \<open>
  Rounding of a real to binary64, to nearest with ties to even, which is how every
  arithmetic operation and every decimal literal of the language are rounded. The doubles
  around \<open>x\<close> are the multiples of \<open>q = 2\<^sup>e\<^sup>-\<^sup>5\<^sup>2\<close> for the exponent \<open>e\<close> of \<open>x\<close>;
  the magnitude is rounded to the nearest multiple. A result that vanishes keeps the sign
  of \<open>x\<close>, and a result of \<open>2\<^sup>1\<^sup>0\<^sup>2\<^sup>4\<close> or more is an infinity.
\<close>

definition round64 :: "real \<Rightarrow> number" where
  "round64 x =
     (let q = pow2 (exponent x - 52);
          n = round_even (\<bar>x\<bar> / q)
      in if n = 0 then (if x < 0 then NegZero else Num 0)
         else if pow2 1024 \<le> of_int n * q then (if x < 0 then NegInf else PosInf)
         else Num (sgn x * of_int n * q))"

fun is_nan :: "number \<Rightarrow> bool" where
  "is_nan NaN = True"
| "is_nan _ = False"

fun is_finite :: "number \<Rightarrow> bool" where
  "is_finite (Num x) = True"
| "is_finite NegZero = True"
| "is_finite _ = False"

text \<open>The real value of a finite double, and the sign bit of a number.\<close>

fun val :: "number \<Rightarrow> real" where
  "val (Num x) = x"
| "val _ = 0"

fun negative :: "number \<Rightarrow> bool" where
  "negative (Num x) = (x < 0)"
| "negative NegZero = True"
| "negative NegInf = True"
| "negative _ = False"

definition zero :: "bool \<Rightarrow> number" where
  "zero neg = (if neg then NegZero else Num 0)"

definition infinity :: "bool \<Rightarrow> number" where
  "infinity neg = (if neg then NegInf else PosInf)"

text \<open>
  The operators \<open>+\<close>, \<open>-\<close>, \<open>*\<close>, \<open>/\<close> and \<open>Math.sqrt\<close>, as IEEE 754 defines them:
  the exact result rounded by \<open>round64\<close>, with the special cases written out. An exact
  sum of zero is \<open>-0\<close> only when both operands are negative; a product or quotient has
  the sign of its operands combined; \<open>\<infinity> - \<infinity>\<close>, \<open>0 * \<infinity>\<close>, \<open>0 / 0\<close>, \<open>\<infinity> / \<infinity>\<close> and
  the square root of a negative number are \<open>NaN\<close>, and so is every operation on
  \<open>NaN\<close>.
\<close>

definition num_add :: "number \<Rightarrow> number \<Rightarrow> number" where
  "num_add a b =
     (if is_nan a \<or> is_nan b then NaN
      else if is_finite a \<and> is_finite b then
        (if val a + val b = 0 then zero (negative a \<and> negative b)
         else round64 (val a + val b))
      else if is_finite a then b
      else if is_finite b then a
      else if a = b then a else NaN)"

fun num_neg :: "number \<Rightarrow> number" where
  "num_neg (Num x) = (if x = 0 then NegZero else Num (- x))"
| "num_neg NegZero = Num 0"
| "num_neg PosInf = NegInf"
| "num_neg NegInf = PosInf"
| "num_neg NaN = NaN"

definition num_sub :: "number \<Rightarrow> number \<Rightarrow> number" where
  "num_sub a b = num_add a (num_neg b)"

definition num_mul :: "number \<Rightarrow> number \<Rightarrow> number" where
  "num_mul a b =
     (if is_nan a \<or> is_nan b then NaN
      else if is_finite a \<and> is_finite b then
        (if val a * val b = 0 then zero (negative a \<noteq> negative b)
         else round64 (val a * val b))
      else if (is_finite a \<and> val a = 0) \<or> (is_finite b \<and> val b = 0) then NaN
      else infinity (negative a \<noteq> negative b))"

definition num_div :: "number \<Rightarrow> number \<Rightarrow> number" where
  "num_div a b =
     (if is_nan a \<or> is_nan b then NaN
      else if is_finite a \<and> is_finite b then
        (if val b = 0 then (if val a = 0 then NaN else infinity (negative a \<noteq> negative b))
         else if val a = 0 then zero (negative a \<noteq> negative b)
         else round64 (val a / val b))
      else if is_finite a then zero (negative a \<noteq> negative b)
      else if is_finite b then infinity (negative a \<noteq> negative b)
      else NaN)"

fun num_sqrt :: "number \<Rightarrow> number" where
  "num_sqrt (Num x) = (if x < 0 then NaN else if x = 0 then Num 0 else round64 (sqrt x))"
| "num_sqrt NegZero = NegZero"
| "num_sqrt PosInf = PosInf"
| "num_sqrt NegInf = NaN"
| "num_sqrt NaN = NaN"

text \<open>The tests \<open>x > 0\<close>, \<open>x < 0\<close> and \<open>x == 0\<close>: all false on \<open>NaN\<close>.\<close>

fun is_positive :: "number \<Rightarrow> bool" where
  "is_positive (Num x) = (0 < x)"
| "is_positive PosInf = True"
| "is_positive _ = False"

fun is_negative :: "number \<Rightarrow> bool" where
  "is_negative (Num x) = (x < 0)"
| "is_negative NegInf = True"
| "is_negative _ = False"

fun is_zero :: "number \<Rightarrow> bool" where
  "is_zero (Num x) = (x = 0)"
| "is_zero NegZero = True"
| "is_zero _ = False"


text \<open>
  The values a finite double can take are multiples of the smallest subnormal,
  \<open>2\<^sup>-\<^sup>1\<^sup>0\<^sup>7\<^sup>4\<close>. A value of type \<open>number\<close> that is finite and on this grid is called
  a finite double here; every finite result of an operation is one.
\<close>

definition on_grid :: "real \<Rightarrow> bool" where
  "on_grid x \<longleftrightarrow> (\<exists>n :: int. x = of_int n * pow2 (- 1074))"

definition finite_double :: "number \<Rightarrow> bool" where
  "finite_double a \<longleftrightarrow> is_finite a \<and> on_grid (val a)"

text \<open>\<open>xs[i]\<close> used as an operand: past the end of the array it is \<open>undefined\<close>, which
  arithmetic reads as \<open>NaN\<close>.\<close>

definition elem :: "number list \<Rightarrow> nat \<Rightarrow> number" where
  "elem xs i = (if i < length xs then xs ! i else NaN)"

section \<open>Cosine similarity (src/server.js, cosineSimilarity)\<close>

text \<open>The \<open>for\<close> loop over the indices of \<open>a\<close>, with the three accumulators.\<close>

function cosineSimilarity_loop ::
  "number list \<Rightarrow> number list \<Rightarrow> nat \<Rightarrow> number \<times> number \<times> number \<Rightarrow> number \<times> number \<times> number" where
  "cosineSimilarity_loop a b i (dot, normA, normB) =
     (if i < length a then
        cosineSimilarity_loop a b (i + 1)
          (num_add dot (num_mul (elem a i) (elem b i)),
           num_add normA (num_mul (elem a i) (elem a i)),
           num_add normB (num_mul (elem b i) (elem b i)))
      else (dot, normA, normB))"
  by pat_completeness auto
termination
  by (relation "measure (\<lambda>(a, b, i, acc). length a - i)") auto

declare cosineSimilarity_loop.simps [simp del]

text \<open>The literal \<open>1e-8\<close> is the double nearest to \<open>10\<^sup>-\<^sup>8\<close>.\<close>

definition cosineSimilarity :: "number list \<Rightarrow> number list \<Rightarrow> number" where
  "cosineSimilarity a b =
     (case cosineSimilarity_loop a b 0 (Num 0, Num 0, Num 0) of (dot, normA, normB) \<Rightarrow>
        num_div dot (num_add (num_mul (num_sqrt normA) (num_sqrt normB)) (round64 (1 / 10 ^ 8))))"

section \<open>The retriever (src/server.js, selectTopK)\<close>

text \<open>
  A vector record, with the type of its embedding left open: the server reads records
  whose embedding is an array of numbers, the ingestion script writes records whose
  embedding may be missing.
\<close>

record 'e vector =
  vid :: jsstring
  url :: jsstring
  title :: jsstring
  content :: jsstring
  embedding :: 'e

text \<open>The object \<open>{ ...v, score }\<close>: the fields of the record and the score.\<close>

record 'e scored_vector = "'e vector" +
  score :: number

record 'v rag_index =
  site :: jsstring
  generatedAt :: jsstring
  model :: jsstring
  vectors :: 'v

text \<open>
  The index the server holds: \<open>vectors\<close> is \<open>None\<close> when the field is missing or is
  not an array, the case that \<open>Array.isArray\<close> guards.
\<close>

type_synonym stored_index = "number list vector list option rag_index"

definition with_score :: "'e vector \<Rightarrow> number \<Rightarrow> 'e scored_vector" where
  "with_score v s =
     \<lparr>vid = vid v, url = url v, title = title v, content = content v,
      embedding = embedding v, score = s\<rparr>"

text \<open>
  \<open>Array.prototype.sort\<close> belongs to the engine, and the language fixes its result
  only in part. The result is always a rearrangement of the array. When the comparator is
  consistent on the elements of the array, the result is sorted by it and keeps elements
  comparing equal in their order (the sort is stable); when it is not, which is the case
  as soon as a comparison gives \<open>NaN\<close>, the order is left to the implementation.

  A comparator is consistent on a list when no comparison of two of its elements is
  \<open>NaN\<close>, every element compares equal to itself, comparing equal is symmetric, and
  comparing equal, less and greater are each transitive.
\<close>

definition consistent_comparator :: "('a \<Rightarrow> 'a \<Rightarrow> number) \<Rightarrow> 'a list \<Rightarrow> bool" where
  "consistent_comparator cmp xs \<longleftrightarrow>
     (\<forall>a\<in>set xs. \<forall>b\<in>set xs. \<forall>c\<in>set xs.
        \<not> is_nan (cmp a b)
        \<and> is_zero (cmp a a)
        \<and> (is_zero (cmp a b) \<longrightarrow> is_zero (cmp b a))
        \<and> (is_zero (cmp a b) \<and> is_zero (cmp b c) \<longrightarrow> is_zero (cmp a c))
        \<and> (is_negative (cmp a b) \<and> is_negative (cmp b c) \<longrightarrow> is_negative (cmp a c))
        \<and> (is_positive (cmp a b) \<and> is_positive (cmp b c) \<longrightarrow> is_positive (cmp a c)))"

text \<open>
  What the language requires of an engine's \<open>sort\<close>: the result is a rearrangement
  of the array; and when the comparator is consistent, no element stands before one it
  compares greater than, and the elements comparing equal to a given one stand in the
  order they had.
\<close>

definition conforming_sort :: "(('a \<Rightarrow> 'a \<Rightarrow> number) \<Rightarrow> 'a list \<Rightarrow> 'a list) \<Rightarrow> bool" where
  "conforming_sort array_sort \<longleftrightarrow>
     (\<forall>cmp xs. mset (array_sort cmp xs) = mset xs
        \<and> (consistent_comparator cmp xs \<longrightarrow>
             sorted_wrt (\<lambda>a b. \<not> is_positive (cmp a b)) (array_sort cmp xs)
             \<and> (\<forall>x\<in>set xs. filter (\<lambda>y. is_zero (cmp x y)) (array_sort cmp xs) =
                               filter (\<lambda>y. is_zero (cmp x y)) xs)))"

text \<open>
  One conforming sort, used to run the retriever on concrete inputs: insertion from the
  right, where \<open>x\<close> moves behind \<open>y\<close> only when \<open>cmp x y\<close> is positive.
\<close>

fun insert_sorted :: "('a \<Rightarrow> 'a \<Rightarrow> number) \<Rightarrow> 'a \<Rightarrow> 'a list \<Rightarrow> 'a list" where
  "insert_sorted cmp x [] = [x]"
| "insert_sorted cmp x (y # ys) =
     (if is_positive (cmp x y) then y # insert_sorted cmp x ys else x # y # ys)"

definition stable_sort :: "('a \<Rightarrow> 'a \<Rightarrow> number) \<Rightarrow> 'a list \<Rightarrow> 'a list" where
  "stable_sort cmp xs = foldr (insert_sorted cmp) xs []"

text \<open>The comparator \<open>(a, b) => b.score - a.score\<close>.\<close>

definition by_score_desc :: "'e scored_vector \<Rightarrow> 'e scored_vector \<Rightarrow> number" where
  "by_score_desc a b = num_sub (score b) (score a)"

text \<open>The \<open>map\<close> that scores every stored vector against the question.\<close>

definition score_all :: "number list \<Rightarrow> number list vector list \<Rightarrow> number list scored_vector list" where
  "score_all questionEmbedding vs =
     map (\<lambda>v. with_score v (cosineSimilarity questionEmbedding (embedding v))) vs"

text \<open>\<open>selectTopK\<close>, with the engine's \<open>sort\<close> as its first argument.\<close>

definition selectTopK ::
  "((number list scored_vector \<Rightarrow> number list scored_vector \<Rightarrow> number) \<Rightarrow>
      number list scored_vector list \<Rightarrow> number list scored_vector list) \<Rightarrow>
   stored_index option \<Rightarrow> number list \<Rightarrow> int \<Rightarrow> number list scored_vector list" where
  "selectTopK array_sort vectorIndex questionEmbedding k =
     (case vectorIndex of
        None \<Rightarrow> []
      | Some idx \<Rightarrow>
          (case vectors idx of
             None \<Rightarrow> []
           | Some vs \<Rightarrow>
               if length vs = 0 then []
               else
                 let scored = score_all questionEmbedding vs;
                     scored' = array_sort by_score_desc scored
                 in slice_js scored' 0 k))"

text \<open>An index of three vectors, used to run the retriever on a concrete input.\<close>

definition example_vector :: "string \<Rightarrow> number list \<Rightarrow> number list vector" where
  "example_vector name e =
     \<lparr>vid = str name, url = str ''https://www.arcade.ai/'', title = str ''Arcade'',
      content = str name, embedding = e\<rparr>"

definition example_index :: stored_index where
  "example_index =
     \<lparr>site = str ''https://www.arcade.ai'', generatedAt = str ''2024-01-01T00:00:00.000Z'',
      model = str ''text-embedding-3-small'',
      vectors = Some [example_vector ''v1'' [Num 0, Num 1], example_vector ''v2'' [Num 1, Num 0],
                      example_vector ''v3'' [Num 0, Num 2]]\<rparr>"

section \<open>Errors and URLs\<close>

text \<open>
  What the code can throw or be handed as a rejection. Every \<open>try\<close>/\<open>catch\<close> of the
  program catches all of them alike.
\<close>

datatype js_error = TypeError | SyntaxError | OtherError jsstring

text \<open>
  The two fields of a parsed \<open>URL\<close> that the program reads. The URL parser is the
  platform's, so the constructor \<open>new URL(s)\<close> is a parameter: it returns the parts
  of an absolute URL or throws a \<open>TypeError\<close>.
\<close>

record url_parts =
  protocol :: jsstring
  host :: jsstring

definition sameHost :: "(jsstring \<Rightarrow> js_error + url_parts) \<Rightarrow> jsstring \<Rightarrow> jsstring \<Rightarrow> bool" where
  "sameHost new_URL url_str site_str =
     (case new_URL url_str of
        Inl err \<Rightarrow> False
      | Inr a \<Rightarrow>
          (case new_URL site_str of
             Inl err \<Rightarrow> False
           | Inr b \<Rightarrow> host a = host b \<and> protocol a = protocol b))"


section \<open>The index builder (scripts/ingest.js, main)\<close>

text \<open>The decimal digits of a chunk index, as the template literal prints them.\<close>

definition digit :: "nat \<Rightarrow> 16 word" where
  "digit d = of_nat (48 + d)"

function show_nat :: "nat \<Rightarrow> jsstring" where
  "show_nat n = (if n < 10 then [digit n] else show_nat (n div 10) @ [digit (n mod 10)])"
  by pat_completeness auto
termination
  by (relation "measure id") auto

declare show_nat.simps [simp del]

text \<open>The id \<open>`${url}#${i}`\<close>.\<close>

definition vector_id :: "jsstring \<Rightarrow> nat \<Rightarrow> jsstring" where
  "vector_id u i = u @ str ''#'' @ show_nat i"

text \<open>
  A record as the script writes it: \<open>embeddings[i]\<close> is missing when the embedding
  service returned fewer vectors than chunks.
\<close>

type_synonym written_vector = "number list option vector"

text \<open>The inner \<open>for\<close> loop: one record per chunk of a page.\<close>

definition page_vectors ::
  "jsstring \<Rightarrow> jsstring \<Rightarrow> jsstring list \<Rightarrow> number list list \<Rightarrow> written_vector list" where
  "page_vectors u page_title chunks embeddings =
     map (\<lambda>i. \<lparr>vid = vector_id u i, url = u, title = page_title, content = chunks ! i,
               embedding = (if i < length embeddings then Some (embeddings ! i) else None)\<rparr>)
       [0..<length chunks]"

text \<open>
  The loop over the URLs. Fetching a page and extracting its title and text
  (\<open>axios.get\<close>, then \<open>extractTitleAndText\<close>) is one parameter, the embedding call
  another; an error of either is caught and the page skipped. The chunker is called as
  \<open>chunkText(text)\<close>, that is with its default chunk size 1200 and overlap 150. A
  chunker that never returns makes the loop never return.
\<close>

fun ingest_pages ::
  "(jsstring \<Rightarrow> js_error + jsstring \<times> jsstring) \<Rightarrow>
   (jsstring list \<Rightarrow> js_error + number list list) \<Rightarrow>
   jsstring list \<Rightarrow> written_vector list \<Rightarrow> written_vector list option" where
  "ingest_pages fetch_page embedBatch [] vecs = Some vecs"
| "ingest_pages fetch_page embedBatch (u # urls) vecs =
     (case fetch_page u of
        Inl err \<Rightarrow> ingest_pages fetch_page embedBatch urls vecs
      | Inr (page_title, text) \<Rightarrow>
          if text = [] \<or> length text < 200
          then ingest_pages fetch_page embedBatch urls vecs
          else
            (case chunkText text 1200 150 of
               None \<Rightarrow> None
             | Some chunks \<Rightarrow>
                 (case embedBatch chunks of
                    Inl err \<Rightarrow> ingest_pages fetch_page embedBatch urls vecs
                  | Inr embeddings \<Rightarrow>
                      ingest_pages fetch_page embedBatch urls
                        (vecs @ page_vectors u page_title chunks embeddings))))"

text \<open>The environment, and the test \<open>!process.env.OPENAI_API_KEY\<close>: unset or empty.\<close>

type_synonym env = "jsstring \<rightharpoonup> jsstring"

definition missing_key :: "env \<Rightarrow> bool" where
  "missing_key env =
     (case env (str ''OPENAI_API_KEY'') of None \<Rightarrow> True | Some v \<Rightarrow> v = [])"

definition embedding_model :: "env \<Rightarrow> jsstring" where
  "embedding_model env =
     (case env (str ''EMBEDDING_MODEL'') of
        None \<Rightarrow> str ''text-embedding-3-small''
      | Some v \<Rightarrow> if v = [] then str ''text-embedding-3-small'' else v)"

text \<open>
  How a run of the script ends: the module failed to load, the process exited with a
  code after printing a message or an error, or the index was written.
\<close>

datatype ingest_outcome =
    Uncaught js_error
  | Exit nat "jsstring + js_error"
  | Saved "written_vector list rag_index"

text \<open>
  What the world answers to the script: file system, network, clock. The two URL lists
  are what \<open>fetchSitemapUrls\<close> and \<open>fetchHomepageUrls\<close> return, each empty when
  its request or parse failed.
\<close>

record ingest_world =
  w_ensureDir :: "js_error + unit"
  w_sitemap_urls :: "jsstring list"
  w_homepage_urls :: "jsstring list"
  w_new_URL :: "jsstring \<Rightarrow> js_error + url_parts"
  w_fetch_page :: "jsstring \<Rightarrow> js_error + jsstring \<times> jsstring"
  w_embedBatch :: "jsstring list \<Rightarrow> js_error + number list list"
  w_now :: jsstring
  w_writeFile :: "written_vector list rag_index \<Rightarrow> js_error + unit"

text \<open>
  \<open>main\<close>, for the site and the limit of the command line. The result is \<open>None\<close>
  when the run never ends.
\<close>

definition main_ingest :: "env \<Rightarrow> jsstring \<Rightarrow> int \<Rightarrow> ingest_world \<Rightarrow> ingest_outcome option" where
  "main_ingest env site_str limit w =
     (if missing_key env then Some (Exit 1 (Inl (str ''Missing OPENAI_API_KEY'')))
      else
        (case w_ensureDir w of
           Inl err \<Rightarrow> Some (Exit 1 (Inr err))
         | Inr _ \<Rightarrow>
             let urls = w_sitemap_urls w;
                 urls = (if length urls = 0 then w_homepage_urls w else urls);
                 urls = filter (\<lambda>u. sameHost (w_new_URL w) u site_str) urls;
                 urls = slice_js urls 0 limit
             in (case ingest_pages (w_fetch_page w) (w_embedBatch w) urls [] of
                   None \<Rightarrow> None
                 | Some vecs \<Rightarrow>
                     let idx = \<lparr>site = site_str, generatedAt = w_now w,
                                model = embedding_model env, vectors = vecs\<rparr>
                     in (case w_writeFile w idx of
                           Inl err \<Rightarrow> Some (Exit 1 (Inr err))
                         | Inr _ \<Rightarrow> Some (Saved idx)))))"

text \<open>
  The script from its first line: the OpenAI client is constructed with the key of the
  environment before \<open>main\<close> runs. The constructor belongs to the client library and
  is a parameter; when it throws, the module does not load.
\<close>

definition ingest_script ::
  "(jsstring option \<Rightarrow> js_error + unit) \<Rightarrow> env \<Rightarrow> jsstring \<Rightarrow> int \<Rightarrow> ingest_world \<Rightarrow>
   ingest_outcome option" where
  "ingest_script new_OpenAI env site_str limit w =
     (case new_OpenAI (env (str ''OPENAI_API_KEY'')) of
        Inl err \<Rightarrow> Some (Uncaught err)
      | Inr _ \<Rightarrow> main_ingest env site_str limit w)"

text \<open>A record whose id is made of its own URL and some chunk index.\<close>

definition id_of_url :: "written_vector \<Rightarrow> bool" where
  "id_of_url v \<longleftrightarrow> (\<exists>i. vid v = vector_id (url v) i)"

section \<open>The server (src/server.js)\<close>

datatype log_entry = Info jsstring | Warn jsstring | Error jsstring

text \<open>
  \<open>loadIndex\<close>, from the in-memory index before the call to the one after it and the
  lines logged. The file system and \<open>JSON.parse\<close> are parameters: whether the file
  exists, what reading it gives (its text, or an error), and what parsing a text gives (a
  value, or a \<open>SyntaxError\<close>). A parsed value is \<open>null\<close> (\<open>None\<close>) or an index
  object. The assignment to \<open>vectorIndex\<close> is the first statement after the parse;
  the log line after it reads \<open>vectorIndex.vectors\<close>, which throws on \<open>null\<close> when
  the assignment has already happened.
\<close>

definition loadIndex ::
  "bool \<Rightarrow> js_error + jsstring \<Rightarrow> (jsstring \<Rightarrow> js_error + stored_index option) \<Rightarrow>
   stored_index option \<Rightarrow> stored_index option \<times> log_entry list" where
  "loadIndex pathExists readFile JSON_parse vectorIndex =
     (if pathExists then
        (case readFile of
           Inl err \<Rightarrow> (vectorIndex, [Error (str ''Failed to load index'')])
         | Inr raw \<Rightarrow>
             (case JSON_parse raw of
                Inl err \<Rightarrow> (vectorIndex, [Error (str ''Failed to load index'')])
              | Inr parsed \<Rightarrow>
                  (case parsed of
                     None \<Rightarrow> (parsed, [Error (str ''Failed to load index'')])
                   | Some idx \<Rightarrow> (parsed, [Info (str ''RAG index loaded'')]))))
      else (vectorIndex, [Warn (str ''No data/index.json found. Run `npm run ingest` to build a knowledge index.'')]))"

text \<open>
  What a reader can see of \<open>vectorIndex\<close> while a reload runs. Handlers interleave
  only where \<open>loadIndex\<close> awaits: at \<open>await fs.pathExists\<close>, at
  \<open>await fs.readFile\<close> when the file exists, and after the call. Parsing, the
  assignment and the log line run without a break in between.
\<close>

definition loadIndex_observed ::
  "bool \<Rightarrow> js_error + jsstring \<Rightarrow> (jsstring \<Rightarrow> js_error + stored_index option) \<Rightarrow>
   stored_index option \<Rightarrow> stored_index option list" where
  "loadIndex_observed pathExists readFile JSON_parse vectorIndex =
     (let final = fst (loadIndex pathExists readFile JSON_parse vectorIndex)
      in if pathExists then [vectorIndex, vectorIndex, final] else [vectorIndex, final])"

text \<open>Responses, as a status with a JSON body.\<close>

datatype body =
    HealthOk
  | ErrorBody jsstring
  | AnswerBody jsstring "(jsstring \<times> jsstring) list"
  | ReloadBody nat

datatype response = Response nat body

text \<open>
  The value a handler finds in \<open>req.body?.question\<close> or \<open>req.query.q\<close>, as far as
  the handler looks at it. A falsy value (a missing field, \<open>null\<close>, \<open>false\<close>, 0, the
  empty string) is replaced by the empty string. On a truthy value the handler calls
  \<open>toString()\<close>, which returns a string (the value itself when it is a string) or
  throws, as it does on an object whose \<open>toString\<close> property is not a function.
\<close>

datatype field_value = Falsy | Truthy "js_error + jsstring"

text \<open>\<open>(value || '').toString().trim()\<close>.\<close>

definition field_text :: "field_value \<Rightarrow> js_error + jsstring" where
  "field_text field =
     (case field of
        Falsy \<Rightarrow> Inr (trim [])
      | Truthy (Inl err) \<Rightarrow> Inl err
      | Truthy (Inr s) \<Rightarrow> Inr (trim s))"

text \<open>
  A request as its route handler receives it. A request whose body the JSON middleware
  refuses is answered by the framework and reaches no handler; it is not a value of this
  type.
\<close>

datatype request =
    GetHealth
  | PostBotAnswer field_value
  | GetTest field_value
  | PostAdminReload

text \<open>
  What the world answers to the server: the file system, the engine's
  \<open>Array.prototype.sort\<close>, and the two remote services. The completion call is taken
  on the question and the contexts its prompt is built from; it returns the content of
  the first choice, if there is one.
\<close>

record server_world =
  w_pathExists :: bool
  w_readFile :: "js_error + jsstring"
  w_JSON_parse :: "jsstring \<Rightarrow> js_error + stored_index option"
  w_sort :: "(number list scored_vector \<Rightarrow> number list scored_vector \<Rightarrow> number) \<Rightarrow>
             number list scored_vector list \<Rightarrow> number list scored_vector list"
  w_embedText :: "jsstring \<Rightarrow> js_error + number list"
  w_complete :: "jsstring \<Rightarrow> number list scored_vector list \<Rightarrow> js_error + jsstring option"

definition answerQuestion ::
  "server_world \<Rightarrow> stored_index option \<Rightarrow> jsstring \<Rightarrow>
   js_error + jsstring \<times> (jsstring \<times> jsstring) list" where
  "answerQuestion w vectorIndex question =
     (case w_embedText w question of
        Inl err \<Rightarrow> Inl err
      | Inr qEmbedding \<Rightarrow>
          let contexts = selectTopK (w_sort w) vectorIndex qEmbedding 6
          in (case w_complete w question contexts of
                Inl err \<Rightarrow> Inl err
              | Inr reply \<Rightarrow>
                  let fallback = str ''I'm not sure yet; let me connect you with a human teammate.'';
                      reply_text = (case reply of
                                None \<Rightarrow> fallback
                              | Some c \<Rightarrow> if trim c = [] then fallback else trim c);
                      sources = map (\<lambda>c. (title c, url c)) (slice_js contexts 0 3)
                  in Inr (reply_text, sources)))"

text \<open>\<open>vectorIndex?.vectors?.length || 0\<close>.\<close>

definition vector_count :: "stored_index option \<Rightarrow> nat" where
  "vector_count vectorIndex =
     (case vectorIndex of
        None \<Rightarrow> 0
      | Some idx \<Rightarrow> (case vectors idx of None \<Rightarrow> 0 | Some vs \<Rightarrow> length vs))"

text \<open>
  The four routes. A handler takes the in-memory index and returns it, changed only by
  a reload, with the response. In the two question routes the conversion of the field
  comes first, inside the \<open>try\<close>: when it throws, the answer is the one of the
  \<open>catch\<close>.
\<close>

fun handle ::
  "env \<Rightarrow> server_world \<Rightarrow> stored_index option \<Rightarrow> request \<Rightarrow> stored_index option \<times> response" where
  "handle env w vectorIndex GetHealth = (vectorIndex, Response 200 HealthOk)"
| "handle env w vectorIndex (PostBotAnswer field) =
     (case field_text field of
        Inl err \<Rightarrow> (vectorIndex, Response 500 (ErrorBody (str ''Internal error'')))
      | Inr question \<Rightarrow>
          if missing_key env
          then (vectorIndex, Response 500 (ErrorBody (str ''Missing OPENAI_API_KEY'')))
          else if question = []
          then (vectorIndex, Response 400 (ErrorBody (str ''Missing `question`'')))
          else
            (case answerQuestion w vectorIndex question of
               Inl err \<Rightarrow> (vectorIndex, Response 500 (ErrorBody (str ''Internal error'')))
             | Inr (reply, sources) \<Rightarrow> (vectorIndex, Response 200 (AnswerBody reply sources))))"
| "handle env w vectorIndex (GetTest field) =
     (case field_text field of
        Inl err \<Rightarrow> (vectorIndex, Response 500 (ErrorBody (str ''Internal error'')))
      | Inr q \<Rightarrow>
          if q = []
          then (vectorIndex, Response 400 (ErrorBody (str ''Missing q'')))
          else
            (case answerQuestion w vectorIndex q of
               Inl err \<Rightarrow> (vectorIndex, Response 500 (ErrorBody (str ''Internal error'')))
             | Inr (reply, sources) \<Rightarrow> (vectorIndex, Response 200 (AnswerBody reply sources))))"
| "handle env w vectorIndex PostAdminReload =
     (let loaded = fst (loadIndex (w_pathExists w) (w_readFile w) (w_JSON_parse w) vectorIndex)
      in (loaded, Response 200 (ReloadBody (vector_count loaded))))"

text \<open>
  The start of the server: the client is constructed, the index is loaded and the
  server listens. The constructor belongs to the client library and is a parameter; when
  it throws, the module does not load and the process ends. Nothing in the module itself
  reads the key before a request arrives. Binding the port is taken to succeed.
\<close>

datatype server_start = Crashed js_error | Listening "stored_index option"

definition server_script ::
  "(jsstring option \<Rightarrow> js_error + unit) \<Rightarrow> env \<Rightarrow> server_world \<Rightarrow> server_start" where
  "server_script new_OpenAI env w =
     (case new_OpenAI (env (str ''OPENAI_API_KEY'')) of
        Inl err \<Rightarrow> Crashed err
      | Inr _ \<Rightarrow> Listening (fst (loadIndex (w_pathExists w) (w_readFile w) (w_JSON_parse w) None)))"

section \<open>The retriever on a heap\<close>

text \<open>
  Arrays and objects are mutable and shared by reference, and \<open>sort\<close> works in
  place. To say what a call of \<open>selectTopK\<close> leaves untouched, the same function is
  stated once more on a heap: an object lives at an address, an array holds addresses, a
  vector record holds the address of its embedding, the index object holds the address of
  its \<open>vectors\<close> array. Reading an address that holds no object of the expected kind
  is answered by a \<open>TypeError\<close>: the heap is taken to be typed as the index is
  documented, and the model says nothing more precise about a heap that is not.
\<close>

type_synonym addr = nat

datatype obj =
    NumArray "number list"
  | VectorObj "addr vector"
  | ScoredObj "addr scored_vector"
  | ObjArray "addr list"
  | IndexObj "addr option rag_index"

type_synonym heap = "obj list"

definition lookup :: "heap \<Rightarrow> addr \<Rightarrow> obj option" where
  "lookup h a = (if a < length h then Some (h ! a) else None)"

text \<open>A new object gets the next free address.\<close>

definition alloc :: "heap \<Rightarrow> obj \<Rightarrow> heap \<times> addr" where
  "alloc h x = (h @ [x], length h)"

definition store :: "heap \<Rightarrow> addr \<Rightarrow> obj \<Rightarrow> heap" where
  "store h a x = h[a := x]"

text \<open>
  The callback of \<open>map\<close>, record by record: \<open>{ ...v, score }\<close> is a new object that
  copies the fields of \<open>v\<close>, the reference to its embedding among them.
\<close>

fun score_refs :: "heap \<Rightarrow> number list \<Rightarrow> addr list \<Rightarrow> addr list \<Rightarrow> js_error + heap \<times> addr list" where
  "score_refs h questionEmbedding [] scored = Inr (h, scored)"
| "score_refs h questionEmbedding (r # refs) scored =
     (case lookup h r of
        Some (VectorObj v) \<Rightarrow>
          (case lookup h (embedding v) of
             Some (NumArray e) \<Rightarrow>
               (case alloc h (ScoredObj (with_score v (cosineSimilarity questionEmbedding e))) of
                  (h', a) \<Rightarrow> score_refs h' questionEmbedding refs (scored @ [a]))
           | _ \<Rightarrow> Inl TypeError)
      | _ \<Rightarrow> Inl TypeError)"

definition score_at :: "heap \<Rightarrow> addr \<Rightarrow> number" where
  "score_at h a = (case lookup h a of Some (ScoredObj s) \<Rightarrow> score s | _ \<Rightarrow> NaN)"

text \<open>
  \<open>selectTopK\<close>: \<open>map\<close> allocates the scored records and the array \<open>scored\<close>,
  \<open>sort\<close> overwrites that array, \<open>slice\<close> allocates the result. A return of
  \<open>[]\<close> allocates an empty array. The engine's \<open>sort\<close> is the first argument; it
  is given the array's elements and its result is written back to the same array.
\<close>

definition selectTopK_heap ::
  "((addr \<Rightarrow> addr \<Rightarrow> number) \<Rightarrow> addr list \<Rightarrow> addr list) \<Rightarrow>
   heap \<Rightarrow> addr option \<Rightarrow> number list \<Rightarrow> int \<Rightarrow> js_error + heap \<times> addr" where
  "selectTopK_heap array_sort h vectorIndex questionEmbedding k =
     (case vectorIndex of
        None \<Rightarrow> Inr (alloc h (ObjArray []))
      | Some ia \<Rightarrow>
          (case lookup h ia of
             Some (IndexObj idx) \<Rightarrow>
               (case vectors idx of
                  None \<Rightarrow> Inr (alloc h (ObjArray []))
                | Some va \<Rightarrow>
                    (case lookup h va of
                       Some (ObjArray refs) \<Rightarrow>
                         if length refs = 0 then Inr (alloc h (ObjArray []))
                         else
                           (case score_refs h questionEmbedding refs [] of
                              Inl err \<Rightarrow> Inl err
                            | Inr (h1, scored) \<Rightarrow>
                                (case alloc h1 (ObjArray scored) of
                                   (h2, sa) \<Rightarrow>
                                     let sorted = array_sort (\<lambda>a b. num_sub (score_at h2 b) (score_at h2 a)) scored;
                                         h3 = store h2 sa (ObjArray sorted)
                                     in Inr (alloc h3 (ObjArray (slice_js sorted 0 k)))))
                     | _ \<Rightarrow> Inl TypeError))
           | _ \<Rightarrow> Inl TypeError))"

text \<open>A record and a vector sequence as a reader finds them on the heap.\<close>

definition read_vector :: "heap \<Rightarrow> addr \<Rightarrow> number list vector option" where
  "read_vector h r =
     (case lookup h r of
        Some (VectorObj v) \<Rightarrow>
          (case lookup h (embedding v) of
             Some (NumArray e) \<Rightarrow>
               Some \<lparr>vid = vid v, url = url v, title = title v, content = content v, embedding = e\<rparr>
           | _ \<Rightarrow> None)
      | _ \<Rightarrow> None)"

definition read_scored :: "heap \<Rightarrow> addr \<Rightarrow> number list scored_vector option" where
  "read_scored h r =
     (case lookup h r of
        Some (ScoredObj v) \<Rightarrow>
          (case lookup h (embedding v) of
             Some (NumArray e) \<Rightarrow>
               Some \<lparr>vid = vid v, url = url v, title = title v, content = content v, embedding = e,
                     score = score v\<rparr>
           | _ \<Rightarrow> None)
      | _ \<Rightarrow> None)"

definition read_vectors :: "heap \<Rightarrow> addr \<Rightarrow> number list vector option list option" where
  "read_vectors h va =
     (case lookup h va of
        Some (ObjArray refs) \<Rightarrow> Some (map (read_vector h) refs)
      | _ \<Rightarrow> None)"


section \<open>Example inputs\<close>

text \<open>
  An environment whose key is the empty string, one with a key, and one in which the
  key is not set.
\<close>

definition empty_key_env :: env where
  "empty_key_env = [str ''OPENAI_API_KEY'' \<mapsto> []]"

definition key_env :: env where
  "key_env = [str ''OPENAI_API_KEY'' \<mapsto> str ''sk-test'']"

definition unset_key_env :: env where
  "unset_key_env = Map.empty"

text \<open>
  A client constructor that throws when it is given no key and accepts every string,
  the empty one included.
\<close>

definition example_new_OpenAI :: "jsstring option \<Rightarrow> js_error + unit" where
  "example_new_OpenAI key =
     (case key of
        None \<Rightarrow> Inl (OtherError (str ''The OPENAI_API_KEY environment variable is missing or empty''))
      | Some k \<Rightarrow> Inr ())"

text \<open>A world in which the index file is missing and both remote services refuse.\<close>

definition offline_world :: server_world where
  "offline_world =
     \<lparr>w_pathExists = False, w_readFile = Inl (OtherError (str ''ENOENT'')),
      w_JSON_parse = (\<lambda>raw. Inl SyntaxError),
      w_sort = stable_sort,
      w_embedText = (\<lambda>q. Inl (OtherError (str ''401''))),
      w_complete = (\<lambda>q cs. Inl (OtherError (str ''401'')))\<rparr>"

text \<open>Pages: two of 200 characters and one too short to be ingested.\<close>

definition long_page :: jsstring where
  "long_page = replicate 200 0x61"

definition example_fetch_page :: "jsstring \<Rightarrow> js_error + jsstring \<times> jsstring" where
  "example_fetch_page u =
     (if u = str ''https://www.arcade.ai/docs'' then Inr (str ''Docs'', long_page)
      else if u = str ''https://www.arcade.ai/pricing'' then Inr (str ''Pricing'', long_page)
      else if u = str ''https://www.arcade.ai/about'' then Inr (str ''About'', str ''Too short'')
      else Inl (OtherError (str ''404'')))"

definition example_embedBatch :: "jsstring list \<Rightarrow> js_error + number list list" where
  "example_embedBatch chunks = Inr (map (\<lambda>c. [Num 1, Num 0]) chunks)"

definition example_new_URL :: "jsstring \<Rightarrow> js_error + url_parts" where
  "example_new_URL s =
     (if s = str ''https://www.arcade.ai'' \<or> s = str ''https://www.arcade.ai/docs''
         \<or> s = str ''https://www.arcade.ai/pricing'' \<or> s = str ''https://www.arcade.ai/about''
      then Inr \<lparr>protocol = str ''https:'', host = str ''www.arcade.ai''\<rparr>
      else if s = str ''http://www.arcade.ai/docs''
      then Inr \<lparr>protocol = str ''http:'', host = str ''www.arcade.ai''\<rparr>
      else if s = str ''https://evil.example/docs''
      then Inr \<lparr>protocol = str ''https:'', host = str ''evil.example''\<rparr>
      else Inl TypeError)"

text \<open>A site whose sitemap lists one page, too short to be ingested.\<close>

definition short_pages_world :: ingest_world where
  "short_pages_world =
     \<lparr>w_ensureDir = Inr (), w_sitemap_urls = [str ''https://www.arcade.ai/about''],
      w_homepage_urls = [], w_new_URL = example_new_URL, w_fetch_page = example_fetch_page,
      w_embedBatch = example_embedBatch, w_now = str ''2024-01-01T00:00:00.000Z'',
      w_writeFile = (\<lambda>idx. Inr ())\<rparr>"

text \<open>A site whose sitemap lists two pages of 200 characters.\<close>

definition two_pages_world :: ingest_world where
  "two_pages_world =
     \<lparr>w_ensureDir = Inr (),
      w_sitemap_urls = [str ''https://www.arcade.ai/docs'', str ''https://www.arcade.ai/pricing''],
      w_homepage_urls = [], w_new_URL = example_new_URL, w_fetch_page = example_fetch_page,
      w_embedBatch = example_embedBatch, w_now = str ''2024-01-01T00:00:00.000Z'',
      w_writeFile = (\<lambda>idx. Inr ())\<rparr>"

text \<open>
  A heap with an index of two records, stored in the order \<open>v2\<close>, \<open>v1\<close>: the
  embeddings at 0 and 2, the records at 1 and 3, the \<open>vectors\<close> array at 4 and the
  index object at 5.
\<close>

definition example_heap :: heap where
  "example_heap =
     [NumArray [Num 1, Num 0],
      VectorObj \<lparr>vid = str ''v1'', url = str ''https://www.arcade.ai/'', title = str ''Arcade'',
                 content = str ''v1'', embedding = 0\<rparr>,
      NumArray [Num 0, Num 1],
      VectorObj \<lparr>vid = str ''v2'', url = str ''https://www.arcade.ai/'', title = str ''Arcade'',
                 content = str ''v2'', embedding = 2\<rparr>,
      ObjArray [3, 1],
      IndexObj \<lparr>site = str ''https://www.arcade.ai'', generatedAt = str ''2024-01-01T00:00:00.000Z'',
                model = str ''text-embedding-3-small'', vectors = Some 4\<rparr>]"

section \<open>Properties of the chunker\<close>

lemma trim_empty_iff: "trim s = [] \<longleftrightarrow> blank s"
proof
  assume "trim s = []"
  then have "dropWhile is_ws (rev (dropWhile is_ws s)) = []" by (simp add: trim_def)
  then have "\<forall>x\<in>set (dropWhile is_ws s). is_ws x" by (simp add: dropWhile_eq_Nil_conv)
  then have "dropWhile is_ws s = []" using hd_dropWhile[of is_ws s] hd_in_set by blast
  then show "blank s" by (simp add: dropWhile_eq_Nil_conv blank_def list_all_iff)
next
  assume "blank s"
  then have "\<forall>x\<in>set s. is_ws x" by (simp add: blank_def list_all_iff)
  then have "dropWhile is_ws s = []" by (rule dropWhile_eq_Nil_conv[THEN iffD2])
  then show "trim s = []" by (simp only: trim_def rev.simps dropWhile.simps)
qed

lemma trim_not_blank: "trim s \<noteq> [] \<Longrightarrow> \<not> blank (trim s)"
proof -
  assume a: "trim s \<noteq> []"
  let ?t = "dropWhile is_ws s"
  have "dropWhile is_ws (rev ?t) \<noteq> []" using a by (simp add: trim_def)
  then have "\<not> is_ws (hd (dropWhile is_ws (rev ?t)))" by (rule hd_dropWhile)
  moreover have "hd (dropWhile is_ws (rev ?t)) \<in> set (trim s)"
    using a by (simp add: trim_def)
  ultimately show ?thesis by (auto simp: blank_def list_all_iff)
qed

lemma length_trim_le: "length (trim s) \<le> length s"
proof -
  have "length (trim s) \<le> length (dropWhile is_ws s)"
    unfolding trim_def using length_dropWhile_le[of is_ws "rev (dropWhile is_ws s)"] by simp
  also have "\<dots> \<le> length s" by (rule length_dropWhile_le)
  finally show ?thesis .
qed

lemma length_window_le: "0 < chunkSize \<Longrightarrow> length (window text chunkSize i) \<le> nat chunkSize"
  by (auto simp: window_def slice_js_def Let_def min_def)

text \<open>
  Once the loop is entered with a positive overlap it cannot return: the next start is
  at most \<open>len - overlap\<close>, which is again below \<open>len\<close>, so the exit test
  \<open>start >= text.length\<close> never holds.
\<close>

lemma chunkText_loop_stuck:
  assumes "chunkText_loop text chunkSize overlap start chunks = Some y"
  shows "\<not> (0 < overlap \<and> 0 \<le> start \<and> start < int (length text))"
proof (rule chunkText_loop.raw_induct
    [where P = "\<lambda>t cs ov st ch r. \<not> (0 < ov \<and> 0 \<le> st \<and> st < int (length t))", OF _ assms])
  fix loop :: "jsstring \<Rightarrow> int \<Rightarrow> int \<Rightarrow> int \<Rightarrow> jsstring list \<Rightarrow> jsstring list option"
    and t :: jsstring and cs ov st :: int and ch r :: "jsstring list"
  assume ih: "\<And>t cs ov st ch r. loop t cs ov st ch = Some r \<Longrightarrow>
                 \<not> (0 < ov \<and> 0 \<le> st \<and> st < int (length t))"
  assume step: "(if st < int (length t) then
        (let end = min (int (length t)) (st + cs);
             chunk = slice_js t st end;
             chunks' = (if length (trim chunk) > 0 then ch @ [trim chunk] else ch);
             start' = end - ov;
             start'' = (if start' < 0 then 0 else start')
         in if start'' \<ge> int (length t) then Some chunks'
            else loop t cs ov start'' chunks')
      else Some ch) = Some r"
  show "\<not> (0 < ov \<and> 0 \<le> st \<and> st < int (length t))"
  proof
    assume a: "0 < ov \<and> 0 \<le> st \<and> st < int (length t)"
    define e where "e = min (int (length t)) (st + cs)"
    define s2 where "s2 = (if e - ov < 0 then 0 else e - ov)"
    have lt: "0 \<le> s2 \<and> s2 < int (length t)" using a by (auto simp: s2_def e_def)
    from step a lt obtain ch' where "loop t cs ov s2 ch' = Some r"
      by (auto simp: Let_def s2_def e_def split: if_splits)
    from ih[OF this] a lt show False by simp
  qed
qed

lemma chunkText_loop_diverges:
  "0 < overlap \<Longrightarrow> 0 \<le> start \<Longrightarrow> start < int (length text) \<Longrightarrow>
   chunkText_loop text chunkSize overlap start chunks = None"
  using chunkText_loop_stuck by (cases "chunkText_loop text chunkSize overlap start chunks") auto

lemma window_index_iff:
  assumes "0 < chunkSize"
  shows "int i * chunkSize < int (length text) \<longleftrightarrow> i < window_count text chunkSize"
proof -
  have "i < window_count text chunkSize \<longleftrightarrow> int i < \<lceil>real (length text) / real_of_int chunkSize\<rceil>"
    by (simp add: window_count_def zless_nat_eq_int_zless)
  also have "\<dots> \<longleftrightarrow> real_of_int (int i) < real (length text) / real_of_int chunkSize"
    by (rule less_ceiling_iff)
  also have "\<dots> \<longleftrightarrow> real_of_int (int i) * real_of_int chunkSize < real (length text)"
    using assms by (simp add: pos_less_divide_eq)
  also have "\<dots> \<longleftrightarrow> int i * chunkSize < int (length text)"
    by (metis of_int_less_iff of_int_mult of_int_of_nat_eq)
  finally show ?thesis by simp
qed

text \<open>Without overlap the loop walks the windows one by one and keeps the non-blank ones.\<close>

lemma chunkText_loop_no_overlap:
  assumes cs: "0 < chunkSize"
  shows "i < window_count text chunkSize \<Longrightarrow>
         chunkText_loop text chunkSize 0 (int i * chunkSize) chunks =
           Some (chunks @ map trim (filter (\<lambda>w. \<not> blank w)
                   (map (window text chunkSize) [i..<window_count text chunkSize])))"
proof (induction "window_count text chunkSize - i" arbitrary: i chunks)
  case 0
  then show ?case by simp
next
  case (Suc n)
  let ?n = "window_count text chunkSize"
  let ?len = "int (length text)"
  have i: "i < ?n" by fact
  then have lt: "int i * chunkSize < ?len" using window_index_iff[OF cs] by simp
  define e where "e = min ?len (int i * chunkSize + chunkSize)"
  have e0: "0 \<le> e" using cs by (auto simp: e_def)
  have w: "slice_js text (int i * chunkSize) e = window text chunkSize i"
    by (simp add: window_def e_def)
  define chunks' where
    "chunks' = (if 0 < length (trim (window text chunkSize i))
                then chunks @ [trim (window text chunkSize i)] else chunks)"
  have c': "chunks' = chunks @ map trim (filter (\<lambda>w. \<not> blank w) [window text chunkSize i])"
    by (simp add: chunks'_def trim_empty_iff[symmetric])
  have up: "[i..<?n] = i # [Suc i..<?n]" using i by (simp add: upt_conv_Cons)
  have unfold: "chunkText_loop text chunkSize 0 (int i * chunkSize) chunks =
      (if ?len \<le> e then Some chunks' else chunkText_loop text chunkSize 0 e chunks')"
    by (subst chunkText_loop.simps)
       (use lt e0 in \<open>auto simp add: Let_def e_def[symmetric] w chunks'_def\<close>)
  show ?case
  proof (cases "Suc i < ?n")
    case True
    then have s: "int (Suc i) * chunkSize < ?len" using window_index_iff[OF cs] by blast
    then have e: "e = int (Suc i) * chunkSize" by (simp add: e_def algebra_simps)
    have n: "n = ?n - Suc i" using Suc(2) by simp
    have "chunkText_loop text chunkSize 0 (int i * chunkSize) chunks =
          chunkText_loop text chunkSize 0 (int (Suc i) * chunkSize) chunks'"
      using s unfolding unfold e by simp
    then show ?thesis
      unfolding Suc(1)[OF n True] c' up by simp
  next
    case False
    then have "\<not> int (Suc i) * chunkSize < ?len" using window_index_iff[OF cs] by blast
    then have e: "e = ?len" by (simp add: e_def algebra_simps)
    have last: "[Suc i..<?n] = []" using False by simp
    have "chunkText_loop text chunkSize 0 (int i * chunkSize) chunks = Some chunks'"
      unfolding unfold e by simp
    then show ?thesis unfolding c' up last by simp
  qed
qed

lemma chunkText_no_overlap_eq:
  assumes cs: "0 < chunkSize"
  shows "chunkText text chunkSize 0 =
           Some (map trim (filter (\<lambda>w. \<not> blank w) (windows text chunkSize)))"
proof (cases "0 < window_count text chunkSize")
  case True
  from chunkText_loop_no_overlap[OF cs True, of "[]"] show ?thesis
    by (simp add: chunkText_def windows_def)
next
  case False
  then have "\<not> (int 0 * chunkSize < int (length text))"
    using window_index_iff[OF cs, of 0 "text"] by simp
  then have "text = []" by simp
  then show ?thesis using False by (simp add: chunkText_def chunkText_loop.simps windows_def)
qed

lemma length_filter_eq_iff: "length (filter P xs) = length xs \<longleftrightarrow> (\<forall>x\<in>set xs. P x)"
proof (induction xs)
  case Nil
  then show ?case by simp
next
  case (Cons x xs)
  have le: "length (filter P xs) \<le> length xs" by (rule length_filter_le)
  show ?case
  proof (cases "P x")
    case True
    with Cons show ?thesis by simp
  next
    case False
    then have "length (filter P (x # xs)) \<noteq> length (x # xs)"
      using le by (simp del: length_filter_le)
    with False show ?thesis by auto
  qed
qed


subsection \<open>Claims about the chunker\<close>

text \<open>
  C1 (termination of \<open>chunkText\<close>). The claim is that \<open>chunkText\<close> returns for every
  text and every \<open>chunkSize > overlap \<ge> 0\<close>, the defaults 1200 and 150 included. The code
  does not: for every non-empty text and every positive overlap below the chunk size the
  call never returns. When the window reaches the end of the text, \<open>start\<close> becomes
  \<open>len - overlap\<close> (or 0), which is below \<open>len\<close>, so the test \<open>start >= text.length\<close>
  fails and the same last window is cut again, for ever.
\<close>

theorem chunkText_positive_overlap_never_returns:
  assumes "text \<noteq> []" and "0 \<le> overlap" and "overlap < chunkSize" and "overlap \<noteq> 0"
  shows "chunkText text chunkSize overlap = None"
  using assms by (simp add: chunkText_def chunkText_loop_diverges)

theorem chunkText_positive_overlap_never_returns_witness:
  "replicate 1500 (0x61 :: 16 word) \<noteq> [] \<and> (0::int) \<le> 150 \<and> (150::int) < 1200
   \<and> (150::int) \<noteq> 0 \<and> chunkText (replicate 1500 0x61) 1200 150 = None"
proof -
  have h: "replicate 1500 (0x61 :: 16 word) \<noteq> []" "(0::int) \<le> 150" "(150::int) < 1200"
    "(150::int) \<noteq> 0"
    by simp_all
  from chunkText_positive_overlap_never_returns[OF h] h show ?thesis by blast
qed

text \<open>
  C2 (number and size of the chunks), as the code has it. The count
  \<open>\<lceil>(len - overlap) / (chunkSize - overlap)\<rceil>\<close> is not what \<open>chunkText\<close> returns: a
  window whose slice is blank is skipped by the guard \<open>chunk.trim().length > 0\<close>, so the
  count can be smaller. What holds, for every text and every \<open>chunkSize > 0\<close> with
  overlap 0: \<open>chunkText\<close> returns the trimmed non-blank windows in order; their number is
  at most \<open>\<lceil>(len - 0) / (chunkSize - 0)\<rceil>\<close>, and equal to it exactly when no window is
  blank; every chunk has at most \<open>chunkSize\<close> code units, is not empty and is not
  whitespace only. Nothing is stated for a positive overlap.
\<close>

theorem chunkText_without_overlap:
  assumes "0 < chunkSize"
  shows "\<exists>chunks. chunkText text chunkSize 0 = Some chunks
          \<and> chunks = map trim (filter (\<lambda>w. \<not> blank w) (windows text chunkSize))
          \<and> length chunks \<le> nat \<lceil>(real (length text) - 0) / (real_of_int chunkSize - 0)\<rceil>
          \<and> (length chunks = nat \<lceil>(real (length text) - 0) / (real_of_int chunkSize - 0)\<rceil>
               \<longleftrightarrow> (\<forall>w\<in>set (windows text chunkSize). \<not> blank w))
          \<and> (\<forall>c\<in>set chunks. length c \<le> nat chunkSize \<and> c \<noteq> [] \<and> \<not> blank c)"
proof -
  let ?ws = "windows text chunkSize"
  let ?chunks = "map trim (filter (\<lambda>w. \<not> blank w) ?ws)"
  have len: "length ?ws = nat \<lceil>(real (length text) - 0) / (real_of_int chunkSize - 0)\<rceil>"
    by (simp add: windows_def window_count_def)
  have 1: "chunkText text chunkSize 0 = Some ?chunks"
    by (rule chunkText_no_overlap_eq[OF assms])
  have 2: "length ?chunks \<le> length ?ws" by simp
  have 3: "length ?chunks = length ?ws \<longleftrightarrow> (\<forall>w\<in>set ?ws. \<not> blank w)"
    using length_filter_eq_iff[of "\<lambda>w. \<not> blank w" ?ws] by simp
  have 4: "\<forall>c\<in>set ?chunks. length c \<le> nat chunkSize \<and> c \<noteq> [] \<and> \<not> blank c"
  proof
    fix c assume "c \<in> set ?chunks"
    then obtain w where w: "w \<in> set ?ws" "\<not> blank w" "c = trim w" by auto
    from w(1) obtain i where "w = window text chunkSize i" by (auto simp: windows_def)
    then have "length w \<le> nat chunkSize" using length_window_le[OF assms] by simp
    then have "length c \<le> nat chunkSize" using length_trim_le[of w] w(3) by simp
    moreover have "c \<noteq> []" using w(2,3) trim_empty_iff by simp
    moreover have "\<not> blank c" using \<open>c \<noteq> []\<close> w(3) trim_not_blank by simp
    ultimately show "length c \<le> nat chunkSize \<and> c \<noteq> [] \<and> \<not> blank c" by simp
  qed
  show ?thesis using 1 2 3 4 unfolding len by blast
qed

theorem chunkText_without_overlap_witness:
  "(0::int) < 2 \<and>
   (\<exists>chunks. chunkText (str ''a   b'') 2 0 = Some chunks
      \<and> chunks = map trim (filter (\<lambda>w. \<not> blank w) (windows (str ''a   b'') 2))
      \<and> length chunks \<le> nat \<lceil>(real (length (str ''a   b'')) - 0) / (real_of_int 2 - 0)\<rceil>
      \<and> (length chunks = nat \<lceil>(real (length (str ''a   b'')) - 0) / (real_of_int 2 - 0)\<rceil>
           \<longleftrightarrow> (\<forall>w\<in>set (windows (str ''a   b'') 2). \<not> blank w))
      \<and> (\<forall>c\<in>set chunks. length c \<le> nat 2 \<and> c \<noteq> [] \<and> \<not> blank c))"
proof -
  have h: "(0::int) < 2" by simp
  from chunkText_without_overlap[OF h, of "str ''a   b''"] h show ?thesis by blast
qed

text \<open>
  The claim of C2 as stated fails at the text \<open>a b\<close> with \<open>chunkSize = 1\<close> and
  \<open>overlap = 0\<close>: the three windows are \<open>a\<close>, a space and \<open>b\<close>, the middle one is
  dropped, and two chunks are returned where the formula gives three.
\<close>

theorem chunkText_blank_window_counterexample:
  "chunkText (str ''a b'') 1 0 = Some [str ''a'', str ''b'']
   \<and> int (length (str ''a b'')) > 0 \<and> (1::int) > 0
   \<and> length [str ''a'', str ''b''] \<noteq> nat \<lceil>(real (length (str ''a b'')) - 0) / (real_of_int 1 - 0)\<rceil>"
  by (simp add: chunkText_def chunkText_loop.simps slice_js_def trim_def is_ws_def str_def)

text \<open>
  C4 (a text shorter than the chunk size). The claim is that such a text gives exactly
  one chunk (none when it is blank). With the default overlap of 150 the code never
  returns on it: a page of 200 characters, the shortest that \<open>main\<close> hands to the
  chunker, is cut as one window \<open>[0, 200)\<close>, then \<open>start\<close> becomes 50, below the
  length, and the window \<open>[50, 200)\<close> is cut again and again.
\<close>

theorem chunkText_short_text_default_overlap: "chunkText long_page 1200 150 = None"
  by (simp add: chunkText_def chunkText_loop_diverges long_page_def)

section \<open>Properties of the numbers\<close>

text \<open>Powers of two, and the exponent of a real.\<close>

lemma pow2_pos [simp]: "0 < pow2 e"
  by (simp add: pow2_def)

lemma pow2_nonneg [simp]: "0 \<le> pow2 e"
  by (simp add: pow2_def)

lemma pow2_neq_0 [simp]: "pow2 e \<noteq> 0"
  by (simp add: pow2_def)

lemma pow2_powr: "pow2 e = 2 powr real_of_int e"
  by (simp add: pow2_def powr_int)

lemma pow2_add: "pow2 (a + b) = pow2 a * pow2 b"
  by (simp add: pow2_powr powr_add)

lemma pow2_mono: "a \<le> b \<Longrightarrow> pow2 a \<le> pow2 b"
  by (simp add: pow2_powr)

lemma pow2_nat: "0 \<le> e \<Longrightarrow> pow2 e = of_int (2 ^ nat e)"
  by (simp add: pow2_def)

lemma pow2_floor_log_le: "0 < y \<Longrightarrow> pow2 \<lfloor>log 2 y\<rfloor> \<le> y"
  using floor_log_eq_powr_iff[of y 2 "\<lfloor>log 2 y\<rfloor>"] by (simp add: pow2_powr)

lemma exponent_eq:
  assumes "0 < y" "pow2 e \<le> y" "y < pow2 (e + 1)"
  shows "\<lfloor>log 2 y\<rfloor> = e"
  using assms floor_log_eq_powr_iff[of y 2 e] by (simp add: pow2_powr)

text \<open>Rounding to an integer.\<close>

lemma round_even_0 [simp]: "round_even 0 = 0"
  by (simp add: round_even_def)

lemma round_even_ge_1: "1 \<le> t \<Longrightarrow> 1 \<le> round_even t"
proof -
  assume "1 \<le> t"
  then have "1 \<le> \<lfloor>t\<rfloor>" by simp
  then show ?thesis by (auto simp: round_even_def Let_def)
qed

lemma round_even_nonneg: "0 \<le> t \<Longrightarrow> 0 \<le> round_even t"
proof -
  assume "0 \<le> t"
  then have "0 \<le> \<lfloor>t\<rfloor>" by simp
  then show ?thesis by (auto simp: round_even_def Let_def)
qed

text \<open>
  What rounding to a double can give: a zero with the sign of the real, a number of the
  same sign on the grid of doubles, or the infinity of that sign; never \<open>NaN\<close>.
\<close>

lemma round64_0 [simp]: "round64 0 = Num 0"
  by (simp add: round64_def)

lemma exponent_ge: "- 1022 \<le> exponent x"
  by (simp add: exponent_def)

lemma pow2_grid: "- 1074 \<le> e \<Longrightarrow> \<exists>m :: int. pow2 e = of_int m * pow2 (- 1074)"
proof -
  assume "- 1074 \<le> e"
  then have "pow2 e = pow2 (e + 1074) * pow2 (- 1074)"
    using pow2_add[of "e + 1074" "- 1074"] by simp
  also have "pow2 (e + 1074) = of_int (2 ^ nat (e + 1074))"
    using \<open>- 1074 \<le> e\<close> by (simp add: pow2_nat)
  finally show ?thesis by blast
qed

lemma round64_cases:
  obtains (zero) "round64 x = Num 0" "0 \<le> x"
  | (negzero) "round64 x = NegZero" "x < 0"
  | (pos) y where "round64 x = Num y" "0 < y" "0 < x" "on_grid y"
  | (neg) y where "round64 x = Num y" "y < 0" "x < 0" "on_grid y"
  | (pinf) "round64 x = PosInf" "0 < x"
  | (ninf) "round64 x = NegInf" "x < 0"
proof -
  define q where "q = pow2 (exponent x - 52)"
  define n where "n = round_even (\<bar>x\<bar> / q)"
  have q: "0 < q" by (simp add: q_def)
  have n0: "0 \<le> n" unfolding n_def using q by (intro round_even_nonneg) simp
  have r: "round64 x = (if n = 0 then (if x < 0 then NegZero else Num 0)
         else if pow2 1024 \<le> of_int n * q then (if x < 0 then NegInf else PosInf)
         else Num (sgn x * of_int n * q))"
    by (simp add: round64_def Let_def q_def n_def)
  have x0: "x \<noteq> 0" if "n \<noteq> 0" using that by (auto simp: n_def)
  obtain m :: int where m: "q = of_int m * pow2 (- 1074)"
    using pow2_grid[of "exponent x - 52"] exponent_ge[of x] unfolding q_def by force
  have grid: "on_grid (sgn x * of_int n * q)"
  proof -
    have "sgn x * of_int n * q = of_int (sgn (if x < 0 then -1 else if x = 0 then 0 else 1) * n * m) * pow2 (- 1074)"
      unfolding m by (auto simp: sgn_if)
    then show ?thesis unfolding on_grid_def by blast
  qed
  show ?thesis
  proof (cases "n = 0")
    case True
    then show ?thesis using r zero negzero by (cases "x < 0") auto
  next
    case False
    then have np: "0 < n" using n0 by simp
    show ?thesis
    proof (cases "pow2 1024 \<le> of_int n * q")
      case True
      then show ?thesis using r False pinf ninf x0[OF False] by (cases "x < 0") auto
    next
      case nb: False
      have rr: "round64 x = Num (sgn x * of_int n * q)" using r False nb by simp
      show ?thesis
      proof (cases "x < 0")
        case True
        then have "sgn x * of_int n * q < 0" using np q by (simp add: sgn_if mult_pos_pos)
        then show ?thesis using neg[OF rr _ True grid] by simp
      next
        case xf: False
        then have xp: "0 < x" using x0[OF False] by simp
        then have "0 < sgn x * of_int n * q" using np q by (simp add: sgn_if)
        then show ?thesis using pos[OF rr _ xp grid] by simp
      qed
    qed
  qed
qed

lemma round64_not_nan [simp]: "round64 x \<noteq> NaN"
  by (rule round64_cases[of x]) auto

text \<open>A real that is at least the smallest subnormal does not round to zero.\<close>

lemma round64_nonzero:
  assumes "pow2 (- 1074) \<le> \<bar>x\<bar>"
  shows "round64 x \<noteq> Num 0 \<and> round64 x \<noteq> NegZero"
proof -
  define q where "q = pow2 (exponent x - 52)"
  have q: "0 < q" by (simp add: q_def)
  have xp: "0 < \<bar>x\<bar>" using assms pow2_pos[of "- 1074"] by linarith
  have "q \<le> \<bar>x\<bar>"
  proof (cases "\<lfloor>log 2 \<bar>x\<bar>\<rfloor> \<le> - 1022")
    case True
    then have "exponent x = - 1022" by (simp add: exponent_def)
    then show ?thesis using assms by (simp add: q_def)
  next
    case False
    then have e: "exponent x = \<lfloor>log 2 \<bar>x\<bar>\<rfloor>" by (simp add: exponent_def)
    have "q \<le> pow2 (exponent x)" unfolding q_def by (rule pow2_mono) simp
    also have "\<dots> \<le> \<bar>x\<bar>" unfolding e by (rule pow2_floor_log_le[OF xp])
    finally show ?thesis .
  qed
  then have "1 \<le> \<bar>x\<bar> / q" using q by (simp add: le_divide_eq)
  then have n: "1 \<le> round_even (\<bar>x\<bar> / q)" by (rule round_even_ge_1)
  have "x \<noteq> 0" using xp by simp
  then have "sgn x * real_of_int (round_even (\<bar>x\<bar> / q)) * q \<noteq> 0"
    using n q by (simp add: sgn_if)
  then show ?thesis using n by (auto simp: round64_def Let_def q_def)
qed

text \<open>
  Rounding evaluated: for a real between \<open>2\<^sup>e\<close> and \<open>2\<^sup>e\<^sup>+\<^sup>1\<close> the double is the
  nearest multiple of \<open>2\<^sup>e\<^sup>-\<^sup>5\<^sup>2\<close>, and a non-negative real below half the smallest
  subnormal rounds to 0.
\<close>

lemma exponent_normal:
  assumes "pow2 e \<le> \<bar>x\<bar>" "\<bar>x\<bar> < pow2 (e + 1)" "- 1022 \<le> e"
  shows "exponent x = e"
proof -
  have "0 < \<bar>x\<bar>" using assms(1) pow2_pos[of e] by linarith
  from exponent_eq[OF this assms(1,2)] assms(3) show ?thesis by (simp add: exponent_def)
qed


lemma round64_eval:
  assumes "pow2 e \<le> x" "x < pow2 (e + 1)" "- 1022 \<le> e"
    and "round_even (x / pow2 (e - 52)) = n"
    and "of_int n * pow2 (e - 52) < pow2 1024"
  shows "round64 x = Num (of_int n * pow2 (e - 52))"
proof -
  have xp: "0 < x" using assms(1) pow2_pos[of e] by linarith
  have e: "exponent x = e" using exponent_normal[of e x] assms(1,2,3) xp by simp
  have "pow2 (e - 52) \<le> pow2 e" by (rule pow2_mono) simp
  then have "1 \<le> x / pow2 (e - 52)" using assms(1) by (simp add: le_divide_eq)
  then have "1 \<le> n" using round_even_ge_1 assms(4) by blast
  then show ?thesis using assms(4,5) xp by (simp add: round64_def e Let_def)
qed


text \<open>The literal \<open>1e-8\<close> as a double.\<close>

lemma epsilon_val: "round64 (1 / 10 ^ 8) = Num (6044629098073146 * pow2 (- 79))"
  by (rule round64_eval[where e = "- 27" and n = 6044629098073146, simplified])
     (simp_all add: pow2_def round_even_def)

section \<open>Properties of cosine similarity\<close>






text \<open>
  Past the end of \<open>b\<close> the products are \<open>NaN\<close>, and a sum that is \<open>NaN\<close> stays
  \<open>NaN\<close>.
\<close>

lemma num_add_NaN [simp]: "num_add x NaN = NaN" "num_add NaN x = NaN"
  by (simp_all add: num_add_def)

lemma num_mul_NaN [simp]: "num_mul x NaN = NaN" "num_mul NaN x = NaN"
  by (simp_all add: num_mul_def)

lemma num_div_NaN [simp]: "num_div x NaN = NaN" "num_div NaN x = NaN"
  by (simp_all add: num_div_def)




text \<open>
  The similarity of \<open>[2\<^sup>-\<^sup>2\<^sup>0]\<close> with itself, operation by operation: the products
  and the square roots are exact, the sum with \<open>1e-8\<close> and the quotient are rounded.
\<close>

lemma round64_pow2:
  assumes "- 1022 \<le> e" "e \<le> 1023"
  shows "round64 (pow2 e) = Num (pow2 e)"
proof -
  have p: "pow2 e / pow2 (e - 52) = pow2 52"
    using pow2_add[of "e - 52" 52] by simp
  have 1: "pow2 e < pow2 (e + 1)" using pow2_add[of e 1] by (simp add: pow2_def)
  have r: "round_even (pow2 e / pow2 (e - 52)) = 2 ^ 52"
    unfolding p by (simp add: pow2_def round_even_def)
  have "real_of_int (2 ^ 52) * pow2 (e - 52) = pow2 e"
    using pow2_add[of "e - 52" 52] by (simp add: pow2_def)
  moreover have "pow2 e < pow2 1024"
    using pow2_mono[of e 1023] assms(2) by (simp add: pow2_def)
  ultimately show ?thesis
    using round64_eval[of e "pow2 e" "2 ^ 52", OF _ 1 assms(1) r] by simp
qed





lemma cosineSimilarity_2:
  "cosineSimilarity [a1, a2] [b1, b2] =
     num_div (num_add (num_add (Num 0) (num_mul a1 b1)) (num_mul a2 b2))
       (num_add (num_mul (num_sqrt (num_add (num_add (Num 0) (num_mul a1 a1)) (num_mul a2 a2)))
                         (num_sqrt (num_add (num_add (Num 0) (num_mul b1 b1)) (num_mul b2 b2))))
                (round64 (1 / 10 ^ 8)))"
  by (simp add: cosineSimilarity_def cosineSimilarity_loop.simps elem_def)















text \<open>The scores of the example vectors against the question \<open>[1, 0]\<close>.\<close>

lemma round64_1: "round64 1 = Num 1"
  using round64_pow2[of 0] by (simp add: pow2_def)

lemma round64_2: "round64 2 = Num 2"
  using round64_pow2[of 1] by (simp add: pow2_def)

lemma round64_4: "round64 4 = Num 4"
  using round64_pow2[of 2] by (simp add: pow2_def)

lemma unit_denominator:
  "round64 (1 + 6044629098073146 * pow2 (- 79)) = Num (4503599672406492 * pow2 (- 52))"
  by (rule round64_eval[where e = 0 and n = 4503599672406492, simplified])
     (simp_all add: pow2_def round_even_def)

lemma double_denominator:
  "round64 (2 + 6044629098073146 * pow2 (- 79)) = Num (4503599649888494 * pow2 (- 51))"
  by (rule round64_eval[where e = 1 and n = 4503599649888494, simplified])
     (simp_all add: pow2_def round_even_def)

lemma unit_quotient:
  "round64 (1 / (4503599672406492 * pow2 (- 52))) = Num (9007199164669001 * pow2 (- 53))"
  by (rule round64_eval[where e = "- 1" and n = 9007199164669001, simplified])
     (simp_all add: pow2_def round_even_def)

lemma example_scores:
  "cosineSimilarity [Num 1, Num 0] [Num 1, Num 0] = Num (9007199164669001 / 2 ^ 53)"
  "cosineSimilarity [Num 1, Num 0] [Num 0, Num 1] = Num 0"
  "cosineSimilarity [Num 0, Num 1] [Num 1, Num 0] = Num 0"
  "cosineSimilarity [Num 1, Num 0] [Num 0, Num 2] = Num 0"
proof -
  have one: "num_add (num_add (Num 0) (num_mul (Num 1) (Num 1))) (num_mul (Num 0) (Num 0)) = Num 1"
    "num_add (num_add (Num 0) (num_mul (Num 0) (Num 0))) (num_mul (Num 1) (Num 1)) = Num 1"
    by (simp_all add: num_mul_def num_add_def zero_def round64_1)
  have four: "num_add (num_add (Num 0) (num_mul (Num 0) (Num 0))) (num_mul (Num 2) (Num 2)) = Num 4"
    by (simp add: num_mul_def num_add_def zero_def round64_4)
  have nought: "num_add (num_add (Num 0) (num_mul (Num 1) (Num 0))) (num_mul (Num 0) (Num 1)) = Num 0"
    "num_add (num_add (Num 0) (num_mul (Num 0) (Num 1))) (num_mul (Num 1) (Num 0)) = Num 0"
    "num_add (num_add (Num 0) (num_mul (Num 1) (Num 0))) (num_mul (Num 0) (Num 2)) = Num 0"
    by (simp_all add: num_mul_def num_add_def zero_def)
  have s1: "num_sqrt (Num 1) = Num 1" by (simp add: round64_1)
  have s4: "num_sqrt (Num 4) = Num 2"
  proof -
    have "sqrt 4 = (2 :: real)" by (rule real_sqrt_unique) simp_all
    then show ?thesis by (simp add: round64_2)
  qed
  have d1: "num_add (num_mul (Num 1) (Num 1)) (round64 (1 / 10 ^ 8)) =
            Num (4503599672406492 * pow2 (- 52))"
    unfolding epsilon_val using unit_denominator
    by (simp add: num_mul_def num_add_def round64_1 pow2_def)
  have d2: "num_add (num_mul (Num 1) (Num 2)) (round64 (1 / 10 ^ 8)) =
            Num (4503599649888494 * pow2 (- 51))"
    unfolding epsilon_val using double_denominator
    by (simp add: num_mul_def num_add_def round64_2 pow2_def)
  have q1: "num_div (Num 1) (Num (4503599672406492 * pow2 (- 52))) =
            Num (9007199164669001 * pow2 (- 53))"
    using unit_quotient by (simp add: num_div_def pow2_def)
  show "cosineSimilarity [Num 1, Num 0] [Num 1, Num 0] = Num (9007199164669001 / 2 ^ 53)"
    unfolding cosineSimilarity_2 one s1 d1 q1 by (simp add: pow2_def)
  show "cosineSimilarity [Num 1, Num 0] [Num 0, Num 1] = Num 0"
    unfolding cosineSimilarity_2 one nought s1 d1 by (simp add: num_div_def zero_def pow2_def)
  show "cosineSimilarity [Num 0, Num 1] [Num 1, Num 0] = Num 0"
    unfolding cosineSimilarity_2 one nought s1 d1 by (simp add: num_div_def zero_def pow2_def)
  show "cosineSimilarity [Num 1, Num 0] [Num 0, Num 2] = Num 0"
    unfolding cosineSimilarity_2 one four nought s1 s4 d2 by (simp add: num_div_def zero_def pow2_def)
qed



subsection \<open>Claims about cosine similarity\<close>




section \<open>Properties of the retriever\<close>

text \<open>
  A finite score is a finite double, and the difference of two finite doubles does not
  round to zero unless they are equal: the sign of \<open>b.score - a.score\<close> is the sign of
  the exact difference. So on finite scores the comparator is consistent.
\<close>

lemma on_grid_0 [simp]: "on_grid 0"
  unfolding on_grid_def by (rule exI[of _ 0]) simp

lemma on_grid_diff: "on_grid x \<Longrightarrow> on_grid y \<Longrightarrow> on_grid (x - y)"
proof -
  assume "on_grid x" "on_grid y"
  then obtain n m :: int where "x = of_int n * pow2 (- 1074)" "y = of_int m * pow2 (- 1074)"
    unfolding on_grid_def by blast
  then have "x - y = of_int (n - m) * pow2 (- 1074)" by (simp add: algebra_simps)
  then show ?thesis unfolding on_grid_def by blast
qed

lemma on_grid_ge:
  assumes "on_grid z" "z \<noteq> 0"
  shows "pow2 (- 1074) \<le> \<bar>z\<bar>"
proof -
  from assms obtain n :: int where n: "z = of_int n * pow2 (- 1074)" unfolding on_grid_def by blast
  with assms(2) have "n \<noteq> 0" by auto
  then have "1 \<le> \<bar>real_of_int n\<bar>" by linarith
  then have "1 * pow2 (- 1074) \<le> \<bar>real_of_int n\<bar> * pow2 (- 1074)"
    by (intro mult_right_mono) simp_all
  then show ?thesis unfolding n by (simp add: abs_mult)
qed

lemma round64_grid: "is_finite (round64 x) \<Longrightarrow> on_grid (val (round64 x))"
  by (rule round64_cases[of x]) auto

lemma num_div_grid: "is_finite (num_div a b) \<Longrightarrow> on_grid (val (num_div a b))"
  by (auto simp: num_div_def zero_def infinity_def round64_grid split: if_splits)

lemma cosineSimilarity_grid:
  "is_finite (cosineSimilarity a b) \<Longrightarrow> finite_double (cosineSimilarity a b)"
  unfolding finite_double_def cosineSimilarity_def
  by (auto split: prod.splits simp: num_div_grid)

lemma num_neg_finite: "is_finite a \<Longrightarrow> is_finite (num_neg a) \<and> val (num_neg a) = - val a"
  by (cases a) auto

lemma num_sub_sign:
  assumes "finite_double a" "finite_double b"
  shows "\<not> is_nan (num_sub a b)"
    and "is_positive (num_sub a b) \<longleftrightarrow> val b < val a"
    and "is_negative (num_sub a b) \<longleftrightarrow> val a < val b"
    and "is_zero (num_sub a b) \<longleftrightarrow> val a = val b"
proof -
  let ?d = "val a - val b"
  have fa: "is_finite a" "is_finite b" and g: "on_grid ?d"
    using assms by (auto simp: finite_double_def on_grid_diff)
  have nb: "is_finite (num_neg b)" "val (num_neg b) = - val b"
    using num_neg_finite[OF fa(2)] by simp_all
  have na: "\<not> is_nan a" "\<not> is_nan (num_neg b)" using fa nb by (cases a; cases "num_neg b"; simp)+
  have s: "num_sub a b = (if ?d = 0 then zero (negative a \<and> negative (num_neg b)) else round64 ?d)"
    using fa nb na by (simp add: num_sub_def num_add_def)
  have all: "\<not> is_nan (num_sub a b) \<and> (is_positive (num_sub a b) \<longleftrightarrow> val b < val a)
      \<and> (is_negative (num_sub a b) \<longleftrightarrow> val a < val b) \<and> (is_zero (num_sub a b) \<longleftrightarrow> val a = val b)"
  proof (cases "?d = 0")
    case True
    then show ?thesis using s by (auto simp: zero_def)
  next
    case False
    from on_grid_ge[OF g False] have nz: "round64 ?d \<noteq> Num 0" "round64 ?d \<noteq> NegZero"
      using round64_nonzero[of ?d] by simp_all
    have r: "num_sub a b = round64 ?d" using s False by simp
    show ?thesis unfolding r by (rule round64_cases[of ?d]) (use nz False in auto)
  qed
  from all show "\<not> is_nan (num_sub a b)" "is_positive (num_sub a b) \<longleftrightarrow> val b < val a"
    "is_negative (num_sub a b) \<longleftrightarrow> val a < val b" "is_zero (num_sub a b) \<longleftrightarrow> val a = val b"
    by blast+
qed


text \<open>
  A consistent comparator orders the elements: of two elements one compares less,
  equal or greater, greater is the converse of less, and not greater is transitive.
\<close>

lemma sign_cases:
  assumes "\<not> is_nan c"
  shows "(is_positive c \<and> \<not> is_zero c \<and> \<not> is_negative c)
       \<or> (\<not> is_positive c \<and> is_zero c \<and> \<not> is_negative c)
       \<or> (\<not> is_positive c \<and> \<not> is_zero c \<and> is_negative c)"
  using assms by (cases c) auto

lemma consistent_converse:
  assumes c: "consistent_comparator cmp xs" and a: "a \<in> set xs" and b: "b \<in> set xs"
    and p: "is_positive (cmp a b)"
  shows "is_negative (cmp b a)"
proof -
  from c a b have n: "\<not> is_nan (cmp a b)" "\<not> is_nan (cmp b a)" "\<not> is_nan (cmp a a)"
    and r: "is_zero (cmp a a)"
    and s: "is_zero (cmp b a) \<longrightarrow> is_zero (cmp a b)"
    and t: "is_positive (cmp a b) \<and> is_positive (cmp b a) \<longrightarrow> is_positive (cmp a a)"
    unfolding consistent_comparator_def by blast+
  from sign_cases[OF n(1)] sign_cases[OF n(2)] sign_cases[OF n(3)] r s t p show ?thesis by blast
qed

lemma consistent_trans:
  assumes c: "consistent_comparator cmp xs"
    and a: "a \<in> set xs" and b: "b \<in> set xs" and d: "d \<in> set xs"
    and ab: "\<not> is_positive (cmp a b)" and bd: "\<not> is_positive (cmp b d)"
  shows "\<not> is_positive (cmp a d)"
proof
  assume ad: "is_positive (cmp a d)"
  from c a b d have n: "\<not> is_nan (cmp a b)" "\<not> is_nan (cmp b d)" "\<not> is_nan (cmp d a)"
      "\<not> is_nan (cmp d b)" "\<not> is_nan (cmp b a)" "\<not> is_nan (cmp a d)" "\<not> is_nan (cmp b b)"
    unfolding consistent_comparator_def by blast+
  have da: "is_negative (cmp d a)" by (rule consistent_converse[OF c a d ad])
  from c a b d have
    t1: "is_negative (cmp d a) \<and> is_negative (cmp a b) \<longrightarrow> is_negative (cmp d b)"
    and t2: "is_negative (cmp b d) \<and> is_negative (cmp d a) \<longrightarrow> is_negative (cmp b a)"
    and t3: "is_zero (cmp a b) \<and> is_zero (cmp b d) \<longrightarrow> is_zero (cmp a d)"
    and t4: "is_negative (cmp d b) \<and> is_negative (cmp b d) \<longrightarrow> is_negative (cmp d d)"
    and t5: "is_negative (cmp a b) \<and> is_negative (cmp b a) \<longrightarrow> is_negative (cmp a a)"
    and s1: "is_zero (cmp b d) \<longrightarrow> is_zero (cmp d b)"
    and s2: "is_zero (cmp a b) \<longrightarrow> is_zero (cmp b a)"
    and r: "is_zero (cmp d d)" "is_zero (cmp a a)"
    and nn: "\<not> is_nan (cmp d d)" "\<not> is_nan (cmp a a)"
    unfolding consistent_comparator_def by blast+
  from sign_cases[OF n(1)] sign_cases[OF n(2)] sign_cases[OF n(3)] sign_cases[OF n(4)]
    sign_cases[OF n(5)] sign_cases[OF n(6)] sign_cases[OF nn(1)] sign_cases[OF nn(2)]
    ab bd ad da t1 t2 t3 t4 t5 s1 s2 r
  show False by blast
qed

text \<open>Insertion keeps a sorted list sorted, and does not move an element past an equal one.\<close>

lemma set_insert_sorted: "set (insert_sorted cmp x ys) = insert x (set ys)"
  by (induction ys) auto

lemma mset_insert_sorted: "mset (insert_sorted cmp x ys) = add_mset x (mset ys)"
  by (induction ys) auto

lemma insert_sorted_sorted:
  assumes c: "consistent_comparator cmp xs" and x: "x \<in> set xs"
  shows "set ys \<subseteq> set xs \<Longrightarrow> sorted_wrt (\<lambda>a b. \<not> is_positive (cmp a b)) ys \<Longrightarrow>
         sorted_wrt (\<lambda>a b. \<not> is_positive (cmp a b)) (insert_sorted cmp x ys)"
proof (induction ys)
  case Nil
  then show ?case by simp
next
  case (Cons y ys)
  then have y: "y \<in> set xs" and ys: "set ys \<subseteq> set xs" by simp_all
  show ?case
  proof (cases "is_positive (cmp x y)")
    case True
    have "is_negative (cmp y x)" by (rule consistent_converse[OF c x y True])
    then have yx: "\<not> is_positive (cmp y x)" by (cases "cmp y x") auto
    have "sorted_wrt (\<lambda>a b. \<not> is_positive (cmp a b)) (insert_sorted cmp x ys)"
      using Cons by simp
    then show ?thesis using True Cons.prems(2) yx by (simp add: set_insert_sorted)
  next
    case False
    have "\<not> is_positive (cmp x z)" if "z \<in> set ys" for z
    proof -
      have z: "z \<in> set xs" using that ys by blast
      have "\<not> is_positive (cmp y z)" using Cons.prems(2) that by simp
      then show ?thesis using consistent_trans[OF c x y z False] by blast
    qed
    then show ?thesis using False Cons.prems(2) by simp
  qed
qed

lemma filter_insert_sorted:
  assumes "\<And>y. y \<in> set ys \<Longrightarrow> P x \<Longrightarrow> P y \<Longrightarrow> \<not> is_positive (cmp x y)"
  shows "filter P (insert_sorted cmp x ys) = filter P (x # ys)"
  using assms
proof (induction ys)
  case Nil
  then show ?case by simp
next
  case (Cons y ys)
  then have ih: "filter P (insert_sorted cmp x ys) = filter P (x # ys)" by simp
  show ?case
  proof (cases "is_positive (cmp x y)")
    case True
    then have "\<not> (P x \<and> P y)" using Cons.prems[of y] by auto
    then show ?thesis using True ih by auto
  next
    case False
    then show ?thesis by simp
  qed
qed

lemma set_stable_sort: "set (stable_sort cmp xs) = set xs"
  unfolding stable_sort_def by (induction xs) (simp_all add: set_insert_sorted)

lemma mset_stable_sort: "mset (stable_sort cmp xs) = mset xs"
  unfolding stable_sort_def by (induction xs) (simp_all add: mset_insert_sorted)

lemma stable_sort_sorted:
  assumes c: "consistent_comparator cmp xs"
  shows "set zs \<subseteq> set xs \<Longrightarrow>
         sorted_wrt (\<lambda>a b. \<not> is_positive (cmp a b)) (stable_sort cmp zs)"
proof (induction zs)
  case Nil
  then show ?case by (simp add: stable_sort_def)
next
  case (Cons z zs)
  then have z: "z \<in> set xs" and zs: "set zs \<subseteq> set xs" by simp_all
  have "sorted_wrt (\<lambda>a b. \<not> is_positive (cmp a b)) (stable_sort cmp zs)"
    using Cons.IH[OF zs] .
  moreover have "set (stable_sort cmp zs) \<subseteq> set xs" using zs by (simp add: set_stable_sort)
  ultimately have "sorted_wrt (\<lambda>a b. \<not> is_positive (cmp a b))
      (insert_sorted cmp z (stable_sort cmp zs))"
    using insert_sorted_sorted[OF c z] by blast
  then show ?case by (simp add: stable_sort_def)
qed

lemma stable_sort_stable:
  assumes c: "consistent_comparator cmp xs" and x: "x \<in> set xs"
  shows "set zs \<subseteq> set xs \<Longrightarrow>
         filter (\<lambda>y. is_zero (cmp x y)) (stable_sort cmp zs) = filter (\<lambda>y. is_zero (cmp x y)) zs"
proof (induction zs)
  case Nil
  then show ?case by (simp add: stable_sort_def)
next
  case (Cons z zs)
  then have z: "z \<in> set xs" and zs: "set zs \<subseteq> set xs" by simp_all
  have ih: "filter (\<lambda>y. is_zero (cmp x y)) (stable_sort cmp zs) = filter (\<lambda>y. is_zero (cmp x y)) zs"
    using Cons.IH[OF zs] .
  have eq: "\<not> is_positive (cmp z y)"
    if "y \<in> set (stable_sort cmp zs)" "is_zero (cmp x z)" "is_zero (cmp x y)" for y
  proof -
    have y: "y \<in> set xs" using that(1) zs by (auto simp: set_stable_sort)
    from c x y z have "is_zero (cmp x z) \<longrightarrow> is_zero (cmp z x)"
      "is_zero (cmp z x) \<and> is_zero (cmp x y) \<longrightarrow> is_zero (cmp z y)"
      unfolding consistent_comparator_def by blast+
    with that(2,3) have "is_zero (cmp z y)" by blast
    then show ?thesis by (cases "cmp z y") auto
  qed
  have "filter (\<lambda>y. is_zero (cmp x y)) (insert_sorted cmp z (stable_sort cmp zs)) =
        filter (\<lambda>y. is_zero (cmp x y)) (z # stable_sort cmp zs)"
    by (rule filter_insert_sorted) (use eq in blast)
  then show ?case using ih by (simp add: stable_sort_def)
qed

text \<open>The stable sort conforms, and a conforming sort keeps the length.\<close>

lemma conforming_stable_sort: "conforming_sort stable_sort"
  unfolding conforming_sort_def
proof (intro allI conjI impI ballI)
  fix cmp :: "'a \<Rightarrow> 'a \<Rightarrow> number" and xs :: "'a list"
  show "mset (stable_sort cmp xs) = mset xs" by (rule mset_stable_sort)
next
  fix cmp :: "'a \<Rightarrow> 'a \<Rightarrow> number" and xs :: "'a list"
  assume c: "consistent_comparator cmp xs"
  show "sorted_wrt (\<lambda>a b. \<not> is_positive (cmp a b)) (stable_sort cmp xs)"
    by (rule stable_sort_sorted[OF c]) simp
next
  fix cmp :: "'a \<Rightarrow> 'a \<Rightarrow> number" and xs :: "'a list" and x
  assume c: "consistent_comparator cmp xs" and x: "x \<in> set xs"
  show "filter (\<lambda>y. is_zero (cmp x y)) (stable_sort cmp xs) = filter (\<lambda>y. is_zero (cmp x y)) xs"
    by (rule stable_sort_stable[OF c x]) simp
qed

lemma conforming_sort_length:
  "conforming_sort array_sort \<Longrightarrow> length (array_sort cmp xs) = length xs"
  unfolding conforming_sort_def by (metis size_mset)


lemma selectTopK_Some:
  "conforming_sort array_sort \<Longrightarrow> vectors idx = Some vs \<Longrightarrow>
   selectTopK array_sort (Some idx) q k = slice_js (array_sort by_score_desc (score_all q vs)) 0 k"
proof -
  assume a: "conforming_sort array_sort" and v: "vectors idx = Some vs"
  have "array_sort by_score_desc [] = []"
    using conforming_sort_length[OF a, of by_score_desc "[]"] by simp
  then show ?thesis using v
    by (cases vs) (simp_all add: selectTopK_def score_all_def slice_js_def Let_def)
qed








subsection \<open>Claims about the retriever\<close>




section \<open>Properties of the same-host filter\<close>

text \<open>
  C9 (same-host filter). For every URL string and every site string, \<open>sameHost\<close>
  returns true exactly when both parse as absolute URLs and protocol and host of the two
  are equal. A URL that does not parse is rejected, a URL of another host or another
  protocol is rejected, and no error leaves the function: the result is a boolean in
  every case.
\<close>

theorem sameHost_accepts_exactly_same_origin:
  "(sameHost new_URL url_str site_str \<longleftrightarrow>
      (\<exists>a b. new_URL url_str = Inr a \<and> new_URL site_str = Inr b
             \<and> protocol a = protocol b \<and> host a = host b))
   \<and> (new_URL url_str = Inl err \<longrightarrow> sameHost new_URL url_str site_str = False)
   \<and> (new_URL url_str = Inr a \<and> new_URL site_str = Inr b
        \<and> (host a \<noteq> host b \<or> protocol a \<noteq> protocol b)
        \<longrightarrow> sameHost new_URL url_str site_str = False)"
  by (auto simp: sameHost_def split: sum.splits)

theorem sameHost_accepts_exactly_same_origin_witness:
  "sameHost example_new_URL (str ''https://www.arcade.ai/docs'') (str ''https://www.arcade.ai'')
   \<and> example_new_URL (str ''not a url'') = Inl TypeError
   \<and> sameHost example_new_URL (str ''not a url'') (str ''https://www.arcade.ai'') = False
   \<and> sameHost example_new_URL (str ''https://evil.example/docs'') (str ''https://www.arcade.ai'') = False
   \<and> sameHost example_new_URL (str ''http://www.arcade.ai/docs'') (str ''https://www.arcade.ai'') = False"
proof -
  let ?site = "str ''https://www.arcade.ai''"
  let ?sp = "\<lparr>protocol = str ''https:'', host = str ''www.arcade.ai''\<rparr>"
  have s: "example_new_URL ?site = Inr ?sp" by (simp add: example_new_URL_def)
  have d: "example_new_URL (str ''https://www.arcade.ai/docs'') = Inr ?sp"
    by (simp add: example_new_URL_def)
  have n: "example_new_URL (str ''not a url'') = Inl TypeError"
    by (simp add: example_new_URL_def str_def)
  have e: "example_new_URL (str ''https://evil.example/docs'') =
             Inr \<lparr>protocol = str ''https:'', host = str ''evil.example''\<rparr>"
    by (simp add: example_new_URL_def str_def)
  have h: "example_new_URL (str ''http://www.arcade.ai/docs'') =
             Inr \<lparr>protocol = str ''http:'', host = str ''www.arcade.ai''\<rparr>"
    by (simp add: example_new_URL_def str_def)
  have 1: "sameHost example_new_URL (str ''https://www.arcade.ai/docs'') ?site"
    using sameHost_accepts_exactly_same_origin[where new_URL = example_new_URL
        and url_str = "str ''https://www.arcade.ai/docs''" and site_str = ?site]
      s d by blast
  have 2: "sameHost example_new_URL (str ''not a url'') ?site = False"
    using sameHost_accepts_exactly_same_origin[where new_URL = example_new_URL
        and url_str = "str ''not a url''" and site_str = ?site and err = TypeError] n
    by blast
  have 3: "sameHost example_new_URL (str ''https://evil.example/docs'') ?site = False"
    using sameHost_accepts_exactly_same_origin[where new_URL = example_new_URL
        and url_str = "str ''https://evil.example/docs''" and site_str = ?site
        and a = "\<lparr>protocol = str ''https:'', host = str ''evil.example''\<rparr>" and b = ?sp] e s
    by (simp add: str_def)
  have 4: "sameHost example_new_URL (str ''http://www.arcade.ai/docs'') ?site = False"
    using sameHost_accepts_exactly_same_origin[where new_URL = example_new_URL
        and url_str = "str ''http://www.arcade.ai/docs''" and site_str = ?site
        and a = "\<lparr>protocol = str ''http:'', host = str ''www.arcade.ai''\<rparr>" and b = ?sp] h s
    by (simp add: str_def)
  show ?thesis using 1 2 3 4 n by blast
qed

section \<open>Properties of the index builder\<close>














lemma page_vectors_url: "v \<in> set (page_vectors u t chunks embs) \<Longrightarrow> url v = u"
  by (auto simp: page_vectors_def)


lemma page_vectors_id_of_url: "v \<in> set (page_vectors u t chunks embs) \<Longrightarrow> id_of_url v"
  by (auto simp: page_vectors_def id_of_url_def)




text \<open>The script on the example sites.\<close>

lemma key_env_has_key: "\<not> missing_key key_env"
  by (simp add: missing_key_def key_env_def str_def)





lemma docs_same_host:
  "sameHost example_new_URL (str ''https://www.arcade.ai/docs'') (str ''https://www.arcade.ai'')"
  "sameHost example_new_URL (str ''https://www.arcade.ai/pricing'') (str ''https://www.arcade.ai'')"
  by (simp_all add: sameHost_def example_new_URL_def)

lemma slice_two: "slice_js [x, y] 0 40 = [x, y]"
  by (simp add: slice_js_def)

text \<open>On a site with a page of 200 characters the script does not end.\<close>

lemma main_ingest_two_pages:
  "main_ingest key_env (str ''https://www.arcade.ai'') 40 two_pages_world = None"
proof -
  have "chunkText long_page 1200 150 = None"
    by (simp add: chunkText_def chunkText_loop_diverges long_page_def)
  moreover have "\<not> (long_page = [] \<or> length long_page < 200)" by (simp add: long_page_def)
  ultimately have "ingest_pages example_fetch_page example_embedBatch
       [str ''https://www.arcade.ai/docs'', str ''https://www.arcade.ai/pricing''] [] = None"
    by (simp add: example_fetch_page_def)
  then show ?thesis
    unfolding main_ingest_def two_pages_world_def
    by (simp add: key_env_has_key docs_same_host slice_two Let_def del: ingest_pages.simps)
qed




subsection \<open>Claims about the index builder\<close>



section \<open>Properties of the server\<close>

text \<open>
  C7 (reload). \<open>loadIndex\<close> leaves the in-memory index as it was, or replaces it by
  the value that parsing the whole file gave. It is replaced exactly when the file
  exists, is read and parses; it is kept when the file is missing, cannot be read or does
  not parse. At every point where a reader can run during the reload, the index is the
  old one or the completely parsed new one.
\<close>

theorem loadIndex_swaps_or_keeps:
  "(fst (loadIndex pathExists readFile JSON_parse vectorIndex) = vectorIndex
      \<or> (\<exists>raw. pathExists \<and> readFile = Inr raw
            \<and> JSON_parse raw = Inr (fst (loadIndex pathExists readFile JSON_parse vectorIndex))))
   \<and> (pathExists \<and> readFile = Inr raw \<and> JSON_parse raw = Inr parsed
        \<longrightarrow> fst (loadIndex pathExists readFile JSON_parse vectorIndex) = parsed)
   \<and> (\<not> pathExists \<or> (\<exists>err. readFile = Inl err)
        \<or> (\<exists>raw err. readFile = Inr raw \<and> JSON_parse raw = Inl err)
        \<longrightarrow> fst (loadIndex pathExists readFile JSON_parse vectorIndex) = vectorIndex)
   \<and> (\<forall>seen\<in>set (loadIndex_observed pathExists readFile JSON_parse vectorIndex).
         seen = vectorIndex \<or> (\<exists>raw. readFile = Inr raw \<and> JSON_parse raw = Inr seen))"
  by (auto simp: loadIndex_def loadIndex_observed_def Let_def split: sum.splits option.splits)

theorem loadIndex_swaps_or_keeps_witness:
  "fst (loadIndex True (Inr (str ''{}'')) (\<lambda>raw. Inr (Some example_index)) None) = Some example_index
   \<and> fst (loadIndex True (Inr (str ''{'')) (\<lambda>raw. Inl SyntaxError) (Some example_index)) = Some example_index
   \<and> list_all (\<lambda>seen. seen = None \<or> seen = Some example_index)
       (loadIndex_observed True (Inr (str ''{}'')) (\<lambda>raw. Inr (Some example_index)) None)"
proof -
  let ?ok = "\<lambda>raw :: jsstring. Inr (Some example_index) :: js_error + stored_index option"
  let ?bad = "\<lambda>raw :: jsstring. Inl SyntaxError :: js_error + stored_index option"
  have 1: "fst (loadIndex True (Inr (str ''{}'')) ?ok None) = Some example_index"
    using loadIndex_swaps_or_keeps[where pathExists = True and readFile = "Inr (str ''{}'')"
        and JSON_parse = ?ok and vectorIndex = None and raw = "str ''{}''"
        and parsed = "Some example_index"]
    by simp
  have 2: "fst (loadIndex True (Inr (str ''{'')) ?bad (Some example_index)) = Some example_index"
    using loadIndex_swaps_or_keeps[where pathExists = True and readFile = "Inr (str ''{'')"
        and JSON_parse = ?bad and vectorIndex = "Some example_index"]
    by simp
  have 3: "\<forall>seen\<in>set (loadIndex_observed True (Inr (str ''{}'')) ?ok None).
         seen = None \<or> seen = Some example_index"
    using loadIndex_swaps_or_keeps[where pathExists = True and readFile = "Inr (str ''{}'')"
        and JSON_parse = ?ok and vectorIndex = None] by auto
  show ?thesis using 1 2 3 by (simp add: list_all_iff)
qed


text \<open>
  The claim of C3 that a run without the credential serves no request fails for the
  server. With \<open>OPENAI_API_KEY\<close> set to the empty string and a client constructor
  that accepts an empty key, the server starts listening and answers \<open>GET /health\<close>
  with status 200.
\<close>

theorem server_serves_without_key_counterexample:
  "missing_key empty_key_env
   \<and> server_script example_new_OpenAI empty_key_env offline_world = Listening None
   \<and> handle empty_key_env offline_world None GetHealth = (None, Response 200 HealthOk)"
  by (simp add: missing_key_def empty_key_env_def server_script_def offline_world_def loadIndex_def
      example_new_OpenAI_def)

text \<open>
  C3 (missing credential), as the code has it. Let \<open>OPENAI_API_KEY\<close> be unset or
  empty. When the client constructor throws on that key, neither script gets further:
  the ingestion script ends with the uncaught error, and the server ends before it
  loads the index or listens. When the constructor returns, \<open>main\<close> of the ingestion
  script prints \<open>Missing OPENAI_API_KEY\<close> and exits with code 1, whatever the file
  system and the network would answer, so no URL is discovered and no page fetched; the
  server has no check at startup, it loads the index and listens. Its handler of
  \<open>POST /bot/answer\<close> answers every request that reaches it with status 500 and the
  error \<open>Missing OPENAI_API_KEY\<close>, whatever the index and the remote services, except
  that a question whose conversion to a string throws is answered with status 500 and
  \<open>Internal error\<close>.
\<close>

theorem missing_key_is_rejected:
  assumes "missing_key env"
  shows "main_ingest env site_str limit iw = Some (Exit 1 (Inl (str ''Missing OPENAI_API_KEY'')))
       \<and> ingest_script new_OpenAI env site_str limit iw =
           (case new_OpenAI (env (str ''OPENAI_API_KEY'')) of
              Inl err \<Rightarrow> Some (Uncaught err)
            | Inr ok \<Rightarrow> Some (Exit 1 (Inl (str ''Missing OPENAI_API_KEY''))))
       \<and> server_script new_OpenAI env sw =
           (case new_OpenAI (env (str ''OPENAI_API_KEY'')) of
              Inl err \<Rightarrow> Crashed err
            | Inr ok \<Rightarrow>
                Listening (fst (loadIndex (w_pathExists sw) (w_readFile sw) (w_JSON_parse sw) None)))
       \<and> handle env sw vectorIndex (PostBotAnswer field) =
           (vectorIndex,
            Response 500 (ErrorBody (case field_text field of
                                       Inl err \<Rightarrow> str ''Internal error''
                                     | Inr question \<Rightarrow> str ''Missing OPENAI_API_KEY'')))"
proof -
  have 1: "main_ingest env site_str limit iw = Some (Exit 1 (Inl (str ''Missing OPENAI_API_KEY'')))"
    using assms by (simp add: main_ingest_def)
  have 2: "ingest_script new_OpenAI env site_str limit iw =
           (case new_OpenAI (env (str ''OPENAI_API_KEY'')) of
              Inl err \<Rightarrow> Some (Uncaught err)
            | Inr ok \<Rightarrow> Some (Exit 1 (Inl (str ''Missing OPENAI_API_KEY''))))"
    using 1 by (simp add: ingest_script_def split: sum.splits)
  have 3: "server_script new_OpenAI env sw =
           (case new_OpenAI (env (str ''OPENAI_API_KEY'')) of
              Inl err \<Rightarrow> Crashed err
            | Inr ok \<Rightarrow>
                Listening (fst (loadIndex (w_pathExists sw) (w_readFile sw) (w_JSON_parse sw) None)))"
    by (simp add: server_script_def)
  have 4: "handle env sw vectorIndex (PostBotAnswer field) =
           (vectorIndex,
            Response 500 (ErrorBody (case field_text field of
                                       Inl err \<Rightarrow> str ''Internal error''
                                     | Inr question \<Rightarrow> str ''Missing OPENAI_API_KEY'')))"
    using assms by (simp split: sum.splits)
  show ?thesis using 1 2 3 4 by blast
qed

theorem missing_key_is_rejected_witness:
  "missing_key empty_key_env
   \<and> main_ingest empty_key_env (str ''https://www.arcade.ai'') 40 short_pages_world =
       Some (Exit 1 (Inl (str ''Missing OPENAI_API_KEY'')))
   \<and> ingest_script example_new_OpenAI empty_key_env (str ''https://www.arcade.ai'') 40 short_pages_world =
       Some (Exit 1 (Inl (str ''Missing OPENAI_API_KEY'')))
   \<and> server_script example_new_OpenAI empty_key_env offline_world = Listening None
   \<and> handle empty_key_env offline_world None
        (PostBotAnswer (Truthy (Inr (str ''What does Arcade do?'')))) =
       (None, Response 500 (ErrorBody (str ''Missing OPENAI_API_KEY'')))
   \<and> handle empty_key_env offline_world None (PostBotAnswer (Truthy (Inl TypeError))) =
       (None, Response 500 (ErrorBody (str ''Internal error'')))
   \<and> missing_key unset_key_env
   \<and> ingest_script example_new_OpenAI unset_key_env (str ''https://www.arcade.ai'') 40 short_pages_world =
       Some (Uncaught (OtherError (str ''The OPENAI_API_KEY environment variable is missing or empty'')))
   \<and> server_script example_new_OpenAI unset_key_env offline_world =
       Crashed (OtherError (str ''The OPENAI_API_KEY environment variable is missing or empty''))"
proof -
  have m: "missing_key empty_key_env" by (simp add: missing_key_def empty_key_env_def)
  have u: "missing_key unset_key_env" by (simp add: missing_key_def unset_key_env_def)
  have ke: "example_new_OpenAI (empty_key_env (str ''OPENAI_API_KEY'')) = Inr ()"
    by (simp add: example_new_OpenAI_def empty_key_env_def)
  have ku: "example_new_OpenAI (unset_key_env (str ''OPENAI_API_KEY'')) =
      Inl (OtherError (str ''The OPENAI_API_KEY environment variable is missing or empty''))"
    by (simp add: example_new_OpenAI_def unset_key_env_def)
  have l: "fst (loadIndex (w_pathExists offline_world) (w_readFile offline_world)
                  (w_JSON_parse offline_world) None) = None"
    by (simp add: offline_world_def loadIndex_def)
  note a = missing_key_is_rejected[OF m, where new_OpenAI = example_new_OpenAI
      and site_str = "str ''https://www.arcade.ai''" and limit = 40 and iw = short_pages_world
      and sw = offline_world and vectorIndex = None]
  note b = missing_key_is_rejected[OF u, where new_OpenAI = example_new_OpenAI
      and site_str = "str ''https://www.arcade.ai''" and limit = 40 and iw = short_pages_world
      and sw = offline_world and vectorIndex = None]
  have 1: "main_ingest empty_key_env (str ''https://www.arcade.ai'') 40 short_pages_world =
       Some (Exit 1 (Inl (str ''Missing OPENAI_API_KEY'')))"
    using a by blast
  have 2: "ingest_script example_new_OpenAI empty_key_env (str ''https://www.arcade.ai'') 40 short_pages_world =
       Some (Exit 1 (Inl (str ''Missing OPENAI_API_KEY'')))"
    using a[THEN conjunct2, THEN conjunct1] ke by simp
  have 3: "server_script example_new_OpenAI empty_key_env offline_world = Listening None"
    using a[THEN conjunct2, THEN conjunct2, THEN conjunct1] ke l by simp
  have 4: "handle empty_key_env offline_world None
        (PostBotAnswer (Truthy (Inr (str ''What does Arcade do?'')))) =
       (None, Response 500 (ErrorBody (str ''Missing OPENAI_API_KEY'')))"
    using missing_key_is_rejected[OF m, where sw = offline_world and vectorIndex = None
        and field = "Truthy (Inr (str ''What does Arcade do?''))"]
    by (simp add: field_text_def)
  have 5: "handle empty_key_env offline_world None (PostBotAnswer (Truthy (Inl TypeError))) =
       (None, Response 500 (ErrorBody (str ''Internal error'')))"
    using missing_key_is_rejected[OF m, where sw = offline_world and vectorIndex = None
        and field = "Truthy (Inl TypeError)"]
    by (simp add: field_text_def)
  have 6: "ingest_script example_new_OpenAI unset_key_env (str ''https://www.arcade.ai'') 40 short_pages_world =
       Some (Uncaught (OtherError (str ''The OPENAI_API_KEY environment variable is missing or empty'')))"
    using b[THEN conjunct2, THEN conjunct1] ku by simp
  have 7: "server_script example_new_OpenAI unset_key_env offline_world =
       Crashed (OtherError (str ''The OPENAI_API_KEY environment variable is missing or empty''))"
    using b[THEN conjunct2, THEN conjunct2, THEN conjunct1] ku by simp
  from m u 1 2 3 4 5 6 7 show ?thesis by blast
qed

section \<open>Properties of the retriever on a heap\<close>

lemma lookup_alloc_old: "a < length h \<Longrightarrow> lookup (fst (alloc h x)) a = lookup h a"
  by (simp add: lookup_def alloc_def nth_append)

lemma take_alloc: "take (length h) (fst (alloc h x)) = h"
  by (simp add: alloc_def)

lemma score_refs_frame:
  "score_refs h q refs scored = Inr (h', out) \<Longrightarrow> length h \<le> length h' \<and> take (length h) h' = h"
proof (induction refs arbitrary: h scored)
  case Nil
  then show ?case by simp
next
  case (Cons r refs)
  from Cons.prems obtain v e where
    run: "score_refs (h @ [ScoredObj (with_score v (cosineSimilarity q e))]) q refs
            (scored @ [length h]) = Inr (h', out)"
    by (auto simp: alloc_def split: option.splits obj.splits)
  from Cons.IH[OF run] show ?case
    by (auto simp: take_Suc_conv_app_nth dest: arg_cong[where f = "take (length h)"])
qed

lemma lookup_append_old: "a < length h \<Longrightarrow> lookup (h @ hs) a = lookup h a"
  by (simp add: lookup_def nth_append)

lemma lookup_prefix:
  assumes "take (length h) h' = h" and "length h \<le> length h'" and "a < length h"
  shows "lookup h' a = lookup h a"
proof -
  have "h' ! a = take (length h) h' ! a" using assms(3) by simp
  then show ?thesis using assms by (simp add: lookup_def)
qed

lemma score_refs_reads:
  "score_refs h q refs scored = Inr (h', out) \<Longrightarrow>
   \<forall>r\<in>set refs. \<exists>v e. lookup h r = Some (VectorObj v) \<and> lookup h (embedding v) = Some (NumArray e)"
proof (induction refs arbitrary: h scored)
  case Nil
  then show ?case by simp
next
  case (Cons r refs)
  from Cons.prems obtain v e where
    r: "lookup h r = Some (VectorObj v)" "lookup h (embedding v) = Some (NumArray e)"
    and run: "score_refs (h @ [ScoredObj (with_score v (cosineSimilarity q e))]) q refs
            (scored @ [length h]) = Inr (h', out)"
    by (auto simp: alloc_def split: option.splits obj.splits)
  let ?h1 = "h @ [ScoredObj (with_score v (cosineSimilarity q e))]"
  have old: "lookup h a = Some x" if "lookup ?h1 a = Some x" "\<forall>s. x \<noteq> ScoredObj s" for a x
    using that by (auto simp: lookup_def nth_append split: if_splits)
  have "\<exists>v e. lookup h r' = Some (VectorObj v) \<and> lookup h (embedding v) = Some (NumArray e)"
    if "r' \<in> set refs" for r'
  proof -
    from Cons.IH[OF run] that obtain v' e' where
      "lookup ?h1 r' = Some (VectorObj v')" "lookup ?h1 (embedding v') = Some (NumArray e')"
      by blast
    then have "lookup h r' = Some (VectorObj v')" "lookup h (embedding v') = Some (NumArray e')"
      using old by simp_all
    then show ?thesis by blast
  qed
  with r show ?case by auto
qed

lemma read_vector_prefix:
  assumes "take (length h) h' = h" and "length h \<le> length h'"
    and "lookup h r = Some (VectorObj v)" and "lookup h (embedding v) = Some (NumArray e)"
  shows "read_vector h' r = read_vector h r"
proof -
  from assms(3) have r: "r < length h" by (simp add: lookup_def split: if_splits)
  from assms(4) have e: "embedding v < length h" by (simp add: lookup_def split: if_splits)
  show ?thesis
    using lookup_prefix[OF assms(1,2) r] lookup_prefix[OF assms(1,2) e] assms(3,4)
    by (simp add: read_vector_def)
qed

lemma selectTopK_heap_prefix:
  assumes "selectTopK_heap array_sort h vectorIndex q k = Inr (h', result)"
  shows "length h \<le> length h' \<and> take (length h) h' = h"
proof (cases vectorIndex)
  case None
  with assms show ?thesis by (auto simp: selectTopK_heap_def alloc_def)
next
  case (Some ia)
  with assms obtain idx where idx: "lookup h ia = Some (IndexObj idx)"
    by (auto simp: selectTopK_heap_def split: option.splits obj.splits)
  show ?thesis
  proof (cases "vectors idx")
    case None
    with assms Some idx show ?thesis by (auto simp: selectTopK_heap_def alloc_def)
  next
    case va: (Some va)
    with assms Some idx obtain refs where refs: "lookup h va = Some (ObjArray refs)"
      by (auto simp: selectTopK_heap_def split: option.splits obj.splits)
    show ?thesis
    proof (cases "refs = []")
      case True
      with assms Some idx va refs show ?thesis by (auto simp: selectTopK_heap_def alloc_def)
    next
      case False
      with assms Some idx va refs obtain h1 scored where
        sc: "score_refs h q refs [] = Inr (h1, scored)"
        by (auto simp: selectTopK_heap_def split: sum.splits)
      let ?sorted = "array_sort (\<lambda>a b. num_sub (score_at (h1 @ [ObjArray scored]) b)
                        (score_at (h1 @ [ObjArray scored]) a)) scored"
      have h': "h' = (h1 @ [ObjArray scored])[length h1 := ObjArray ?sorted]
                  @ [ObjArray (slice_js ?sorted 0 k)]"
        using assms Some idx va refs False sc
        by (simp add: selectTopK_heap_def alloc_def store_def Let_def)
      from score_refs_frame[OF sc] have f: "length h \<le> length h1" "take (length h) h1 = h"
        by simp_all
      show ?thesis unfolding h' using f by simp
    qed
  qed
qed

text \<open>
  The function on the heap computes what \<open>selectTopK\<close> computes: the records of the
  returned array, read from the heap after the call, are the result of \<open>selectTopK\<close>
  on the index read from the heap before the call.
\<close>

lemma read_scored_prefix:
  assumes "take (length h) h' = h" and "length h \<le> length h'" and "read_scored h a = Some s"
  shows "read_scored h' a = Some s"
proof -
  from assms(3) obtain v e where v: "lookup h a = Some (ScoredObj v)"
    and e: "lookup h (embedding v) = Some (NumArray e)"
    by (auto simp: read_scored_def split: option.splits obj.splits)
  from v have a: "a < length h" by (simp add: lookup_def split: if_splits)
  from e have b: "embedding v < length h" by (simp add: lookup_def split: if_splits)
  show ?thesis
    using lookup_prefix[OF assms(1,2) a] lookup_prefix[OF assms(1,2) b] v e assms(3)
    by (simp add: read_scored_def)
qed

lemma read_scored_score_at: "read_scored h a = Some s \<Longrightarrow> score_at h a = score s"
  by (auto simp: read_scored_def score_at_def split: option.splits obj.splits)

lemma score_refs_spec:
  "score_refs h q refs acc = Inr (h1, out) \<Longrightarrow>
   \<exists>new. out = acc @ new \<and> length new = length refs
     \<and> (\<forall>i<length refs. \<exists>v. read_vector h (refs ! i) = Some v
            \<and> read_scored h1 (new ! i) = Some (with_score v (cosineSimilarity q (embedding v))))"
proof (induction refs arbitrary: h acc)
  case Nil
  then show ?case by simp
next
  case (Cons r refs)
  from Cons.prems obtain v0 e where
    r: "lookup h r = Some (VectorObj v0)" "lookup h (embedding v0) = Some (NumArray e)"
    and run: "score_refs (h @ [ScoredObj (with_score v0 (cosineSimilarity q e))]) q refs
            (acc @ [length h]) = Inr (h1, out)"
    by (auto simp: alloc_def split: option.splits obj.splits)
  let ?c = "cosineSimilarity q e"
  let ?h0 = "h @ [ScoredObj (with_score v0 ?c)]"
  have p0: "take (length h) ?h0 = h" "length h \<le> length ?h0" by simp_all
  from score_refs_frame[OF run] have p1: "take (length ?h0) h1 = ?h0" "length ?h0 \<le> length h1"
    by simp_all
  from Cons.IH[OF run] obtain new' where
    out: "out = (acc @ [length h]) @ new'" and len: "length new' = length refs"
    and each: "\<forall>i<length refs. \<exists>v. read_vector ?h0 (refs ! i) = Some v
            \<and> read_scored h1 (new' ! i) = Some (with_score v (cosineSimilarity q (embedding v)))"
    by blast
  let ?v = "\<lparr>vid = vid v0, url = url v0, title = title v0, content = content v0, embedding = e\<rparr>"
  have rv: "read_vector h r = Some ?v" using r by (simp add: read_vector_def)
  have "read_scored ?h0 (length h) = Some (with_score ?v ?c)"
    using r(2) lookup_append_old[of "embedding v0" h "[ScoredObj (with_score v0 ?c)]"]
    by (simp add: read_scored_def lookup_def with_score_def split: if_splits)
  then have rs: "read_scored h1 (length h) = Some (with_score ?v ?c)"
    by (rule read_scored_prefix[OF p1])
  from score_refs_reads[OF Cons.prems] have valid:
    "\<forall>r'\<in>set (r # refs). \<exists>v e. lookup h r' = Some (VectorObj v) \<and> lookup h (embedding v) = Some (NumArray e)" .
  have tail: "\<exists>v. read_vector h (refs ! i) = Some v
            \<and> read_scored h1 (new' ! i) = Some (with_score v (cosineSimilarity q (embedding v)))"
    if "i < length refs" for i
  proof -
    from that valid obtain v1 e1 where
      l: "lookup h (refs ! i) = Some (VectorObj v1)" "lookup h (embedding v1) = Some (NumArray e1)"
      by (metis list.set_intros(2) nth_mem)
    have eq: "read_vector ?h0 (refs ! i) = read_vector h (refs ! i)"
      by (rule read_vector_prefix[OF p0 l])
    from each that obtain v where "read_vector ?h0 (refs ! i) = Some v"
      "read_scored h1 (new' ! i) = Some (with_score v (cosineSimilarity q (embedding v)))"
      by blast
    then show ?thesis unfolding eq by blast
  qed
  have "\<forall>i<length (r # refs). \<exists>v. read_vector h ((r # refs) ! i) = Some v
            \<and> read_scored h1 ((length h # new') ! i) = Some (with_score v (cosineSimilarity q (embedding v)))"
  proof (intro allI impI)
    fix i assume "i < length (r # refs)"
    show "\<exists>v. read_vector h ((r # refs) ! i) = Some v
            \<and> read_scored h1 ((length h # new') ! i) = Some (with_score v (cosineSimilarity q (embedding v)))"
    proof (cases i)
      case 0
      then show ?thesis using rv rs by simp
    next
      case (Suc j)
      with \<open>i < length (r # refs)\<close> have "j < length refs" by simp
      from tail[OF this] Suc show ?thesis by simp
    qed
  qed
  moreover have "out = acc @ (length h # new')" using out by simp
  moreover have "length (length h # new') = length (r # refs)" using len by simp
  ultimately show ?case by blast
qed

lemma insert_sorted_map:
  assumes "\<forall>y\<in>set ys. cmp' x y = cmp (f x) (f y)"
  shows "map f (insert_sorted cmp' x ys) = insert_sorted cmp (f x) (map f ys)"
  using assms by (induction ys) auto

lemma stable_sort_map:
  assumes "\<forall>a\<in>set xs. \<forall>b\<in>set xs. cmp' a b = cmp (f a) (f b)"
  shows "map f (stable_sort cmp' xs) = stable_sort cmp (map f xs)"
  using assms
proof (induction xs)
  case Nil
  then show ?case by (simp add: stable_sort_def)
next
  case (Cons x xs)
  have ih: "map f (stable_sort cmp' xs) = stable_sort cmp (map f xs)" using Cons by simp
  have "\<forall>y\<in>set (stable_sort cmp' xs). cmp' x y = cmp (f x) (f y)"
    using Cons.prems by (simp add: set_stable_sort)
  from insert_sorted_map[of "stable_sort cmp' xs" cmp' x cmp f, OF this] ih show ?case
    by (simp add: stable_sort_def)
qed

lemma slice_js_map: "map f (slice_js xs a b) = slice_js (map f xs) a b"
  by (simp add: slice_js_def Let_def take_map drop_map)

lemma selectTopK_heap_refines:
  assumes run: "selectTopK_heap stable_sort h (Some ia) q k = Inr (h', res)"
    and ix: "lookup h ia = Some (IndexObj idx)"
    and va: "vectors idx = Some va"
  shows "\<exists>vs rrefs. read_vectors h va = Some (map Some vs)
           \<and> lookup h' res = Some (ObjArray rrefs)
           \<and> map (read_scored h') rrefs =
               map Some (selectTopK stable_sort
                           (Some \<lparr>site = site idx, generatedAt = generatedAt idx,
                                   model = model idx, vectors = Some vs\<rparr>) q k)"
proof -
  from run ix va obtain vrefs where vrefs: "lookup h va = Some (ObjArray vrefs)"
    by (auto simp: selectTopK_heap_def split: option.splits obj.splits)
  let ?idx = "\<lambda>vs. \<lparr>site = site idx, generatedAt = generatedAt idx, model = model idx,
                       vectors = Some vs\<rparr> :: stored_index"
  show ?thesis
  proof (cases "vrefs = []")
    case True
    then have h': "h' = h @ [ObjArray []]" "res = length h"
      using run ix va vrefs by (auto simp: selectTopK_heap_def alloc_def)
    have 1: "read_vectors h va = Some (map Some [])" using vrefs True by (simp add: read_vectors_def)
    have 2: "lookup h' res = Some (ObjArray [])" by (simp add: h' lookup_def)
    have 3: "map (read_scored h') [] = map Some (selectTopK stable_sort (Some (?idx [])) q k)"
      by (simp add: selectTopK_def)
    from 1 2 3 show ?thesis by blast
  next
    case False
    with run ix va vrefs obtain h1 scored where
      sc: "score_refs h q vrefs [] = Inr (h1, scored)"
      by (auto simp: selectTopK_heap_def split: sum.splits)
    let ?h2 = "h1 @ [ObjArray scored]"
    let ?cmp = "\<lambda>a b. num_sub (score_at ?h2 b) (score_at ?h2 a)"
    let ?sorted = "stable_sort ?cmp scored"
    have h': "h' = ?h2[length h1 := ObjArray ?sorted] @ [ObjArray (slice_js ?sorted 0 k)]"
      and res: "res = Suc (length h1)"
      using run ix va vrefs False sc
      by (simp_all add: selectTopK_heap_def alloc_def store_def Let_def)
    from score_refs_spec[OF sc] have len: "length scored = length vrefs"
      and each: "\<forall>i<length vrefs. \<exists>v. read_vector h (vrefs ! i) = Some v
            \<and> read_scored h1 (scored ! i) = Some (with_score v (cosineSimilarity q (embedding v)))"
      by auto
    define vs where "vs = map (\<lambda>r. the (read_vector h r)) vrefs"
    define f where "f = (\<lambda>a. the (read_scored h1 a))"
    have rv: "map (read_vector h) vrefs = map Some vs"
    proof (rule nth_equalityI)
      show "length (map (read_vector h) vrefs) = length (map Some vs)" by (simp add: vs_def)
    next
      fix i assume "i < length (map (read_vector h) vrefs)"
      then have i: "i < length vrefs" by simp
      with each obtain v where "read_vector h (vrefs ! i) = Some v" by blast
      then show "map (read_vector h) vrefs ! i = map Some vs ! i" using i by (simp add: vs_def)
    qed
    have 1: "read_vectors h va = Some (map Some vs)" using vrefs rv by (simp add: read_vectors_def)
    have fs: "map f scored = score_all q vs"
    proof (rule nth_equalityI)
      show "length (map f scored) = length (score_all q vs)"
        by (simp add: len vs_def score_all_def)
    next
      fix i assume "i < length (map f scored)"
      then have i: "i < length vrefs" by (simp add: len)
      with each obtain v where v: "read_vector h (vrefs ! i) = Some v"
        "read_scored h1 (scored ! i) = Some (with_score v (cosineSimilarity q (embedding v)))"
        by blast
      then show "map f scored ! i = score_all q vs ! i"
        using i len by (simp add: f_def vs_def score_all_def)
    qed
    have some: "read_scored h1 a = Some (f a)" if "a \<in> set scored" for a
    proof -
      from that obtain i where i: "i < length scored" "a = scored ! i"
        by (auto simp: in_set_conv_nth)
      with each len obtain s where "read_scored h1 a = Some s" by auto
      then show ?thesis by (simp add: f_def)
    qed
    have p2: "take (length h1) ?h2 = h1" "length h1 \<le> length ?h2" by simp_all
    have p': "take (length h1) h' = h1" "length h1 \<le> length h'" by (simp_all add: h')
    have cmp: "?cmp a b = by_score_desc (f a) (f b)" if "a \<in> set scored" "b \<in> set scored" for a b
      using read_scored_score_at[OF read_scored_prefix[OF p2 some[OF that(1)]]]
        read_scored_score_at[OF read_scored_prefix[OF p2 some[OF that(2)]]]
      by (simp add: by_score_desc_def)
    have sorted: "map f ?sorted = stable_sort by_score_desc (score_all q vs)"
      using stable_sort_map[of scored ?cmp by_score_desc f] cmp fs by simp
    have 2: "lookup h' res = Some (ObjArray (slice_js ?sorted 0 k))"
      by (simp add: h' res lookup_def nth_append)
    have sub: "set (slice_js ?sorted 0 k) \<subseteq> set scored"
    proof -
      have "set (slice_js ?sorted 0 k) \<subseteq> set ?sorted"
        by (auto simp: slice_js_def Let_def dest: in_set_takeD in_set_dropD)
      then show ?thesis by (simp add: set_stable_sort)
    qed
    have "map (read_scored h') (slice_js ?sorted 0 k) = map (\<lambda>a. Some (f a)) (slice_js ?sorted 0 k)"
    proof (rule map_cong[OF refl])
      fix a assume "a \<in> set (slice_js ?sorted 0 k)"
      with sub have "a \<in> set scored" by blast
      from read_scored_prefix[OF p' some[OF this]] show "read_scored h' a = Some (f a)" .
    qed
    also have "\<dots> = map Some (map f (slice_js ?sorted 0 k))" by simp
    also have "\<dots> = map Some (slice_js (stable_sort by_score_desc (score_all q vs)) 0 k)"
      by (simp only: slice_js_map sorted)
    also have "\<dots> = map Some (selectTopK stable_sort (Some (?idx vs)) q k)"
      by (simp add: selectTopK_Some[OF conforming_stable_sort, of "?idx vs" vs])
    finally have 3: "map (read_scored h') (slice_js ?sorted 0 k) =
        map Some (selectTopK stable_sort (Some (?idx vs)) q k)" .
    from 1 2 3 show ?thesis by blast
  qed
qed

lemma selectTopK_heap_example:
  "\<exists>h'. selectTopK_heap stable_sort example_heap (Some 5) [Num 1, Num 0] 1 = Inr (h', 9)
     \<and> lookup h' 9 = Some (ObjArray [7])
     \<and> lookup h' 8 = Some (ObjArray [7, 6])
     \<and> lookup h' 4 = Some (ObjArray [3, 1])"
proof -
  have p: "is_positive (num_sub (Num (9007199164669001 / 2 ^ 53)) (Num 0))"
  proof -
    have "finite_double (cosineSimilarity [Num 1, Num 0] [Num 1, Num 0])"
      by (rule cosineSimilarity_grid) (simp add: example_scores)
    then have "finite_double (Num (9007199164669001 / 2 ^ 53))" by (simp add: example_scores)
    moreover have "finite_double (Num 0)" by (simp add: finite_double_def)
    ultimately show ?thesis by (simp add: num_sub_sign)
  qed
  show ?thesis
    using p
    by (simp add: selectTopK_heap_def example_heap_def lookup_def alloc_def store_def
        example_scores with_score_def stable_sort_def score_at_def slice_js_def Let_def)
qed

subsection \<open>Claims about the heap\<close>

text \<open>
  C10 (querying does not mutate the index). When \<open>selectTopK\<close> returns, every
  object that was on the heap before the call is unchanged: the index object, its
  \<open>vectors\<close> array with its length and order, every record and every embedding. In
  particular the vector sequence read through the index is the same before and after.
  The function has no assignment to \<open>vectorIndex\<close>; scoring writes new objects, and
  \<open>sort\<close> overwrites only the array that \<open>map\<close> has just allocated.
\<close>

theorem selectTopK_heap_frame:
  assumes "selectTopK_heap array_sort h vectorIndex q k = Inr (h', result)"
  shows "(\<forall>a. a < length h \<longrightarrow> lookup h' a = lookup h a)
       \<and> (\<forall>ia idx va. vectorIndex = Some ia \<and> lookup h ia = Some (IndexObj idx) \<and> vectors idx = Some va
             \<longrightarrow> lookup h' ia = Some (IndexObj idx) \<and> read_vectors h' va = read_vectors h va)"
proof -
  from selectTopK_heap_prefix[OF assms] have p: "take (length h) h' = h" "length h \<le> length h'"
    by simp_all
  have old: "lookup h' a = lookup h a" if "a < length h" for a
    using lookup_prefix[OF p that] .
  have idx: "lookup h' ia = Some (IndexObj idx) \<and> read_vectors h' va = read_vectors h va"
    if vi: "vectorIndex = Some ia" and ix: "lookup h ia = Some (IndexObj idx)"
      and va: "vectors idx = Some va" for ia idx va
  proof -
    from ix have "ia < length h" by (simp add: lookup_def split: if_splits)
    then have 1: "lookup h' ia = Some (IndexObj idx)" using old ix by simp
    from assms vi ix va obtain refs where refs: "lookup h va = Some (ObjArray refs)"
      by (auto simp: selectTopK_heap_def split: option.splits obj.splits)
    then have "va < length h" by (simp add: lookup_def split: if_splits)
    then have arr: "lookup h' va = Some (ObjArray refs)" using old refs by simp
    have "map (read_vector h') refs = map (read_vector h) refs"
    proof (cases "refs = []")
      case True
      then show ?thesis by simp
    next
      case False
      with assms vi ix va refs obtain h1 scored where
        sc: "score_refs h q refs [] = Inr (h1, scored)"
        by (auto simp: selectTopK_heap_def split: sum.splits)
      show ?thesis
      proof (rule map_cong[OF refl])
        fix r assume "r \<in> set refs"
        with score_refs_reads[OF sc] obtain v e where
          "lookup h r = Some (VectorObj v)" "lookup h (embedding v) = Some (NumArray e)" by blast
        then show "read_vector h' r = read_vector h r" by (rule read_vector_prefix[OF p])
      qed
    qed
    then have 2: "read_vectors h' va = read_vectors h va"
      using refs arr by (simp add: read_vectors_def)
    from 1 2 show ?thesis by simp
  qed
  show ?thesis using old idx by blast
qed

theorem selectTopK_heap_frame_witness:
  "\<exists>h'. selectTopK_heap stable_sort example_heap (Some 5) [Num 1, Num 0] 1 = Inr (h', 9)
      \<and> lookup h' 5 = lookup example_heap 5
      \<and> lookup h' 4 = Some (ObjArray [3, 1])
      \<and> read_vectors h' 4 = read_vectors example_heap 4"
proof -
  from selectTopK_heap_example obtain h' where
    run: "selectTopK_heap stable_sort example_heap (Some 5) [Num 1, Num 0] 1 = Inr (h', 9)" by blast
  have ix: "lookup example_heap 5 =
      Some (IndexObj \<lparr>site = str ''https://www.arcade.ai'', generatedAt = str ''2024-01-01T00:00:00.000Z'',
                model = str ''text-embedding-3-small'', vectors = Some 4\<rparr>)"
    by (simp add: example_heap_def lookup_def)
  have arr: "lookup example_heap 4 = Some (ObjArray [3, 1])"
    by (simp add: example_heap_def lookup_def)
  have len: "(4 :: nat) < length example_heap" "(5 :: nat) < length example_heap"
    by (simp_all add: example_heap_def)
  from selectTopK_heap_frame[OF run] len ix arr
  have "lookup h' 5 = lookup example_heap 5" "lookup h' 4 = Some (ObjArray [3, 1])"
    "read_vectors h' 4 = read_vectors example_heap 4"
    by auto
  with run show ?thesis by blast
qed


end
